theory Spec2Isabelle
  imports
    Main
    "HOL-Library.Word"
    "HOL-Library.AList"
    "HOL-Library.Char_ord"
    "HOL-Library.List_Lexorder"
    "HOL-Library.Multiset"
begin

section \<open>The PASCAL VOC instance dataset of \<^verbatim>\<open>dataset/pascal.py\<close>\<close>

text \<open>
  The development embeds class \<^verbatim>\<open>PascalVocDataset\<close>: the per-image category
  list of \<^verbatim>\<open>_preprocess\<close>, the cache file it writes and
  \<^verbatim>\<open>_check_preprocess\<close> reads back, the object list of the constructor, and
  the masks of \<^verbatim>\<open>_make_img_gt_point_pair\<close> and \<^verbatim>\<open>__getitem__\<close>.
  Every Python exception is a value of type \<open>error\<close>; a fallible function returns
  \<open>error + 'a\<close> with \<open>Inl\<close> for the exception.
\<close>

subsection \<open>Exceptions and Python sequences\<close>

datatype error =
    IndexError
  | KeyError
  | ValueError
  | AssertionError
  | FileNotFoundError
  | JSONDecodeError
  | Unmodelled

text \<open>
  \<^verbatim>\<open>xs[i]\<close> on a Python sequence: an index from \<open>- len\<close> up to \<open>len - 1\<close> is
  accepted, a negative one counting from the end; anything else raises.
\<close>

fun py_index :: "'a list \<Rightarrow> int \<Rightarrow> error + 'a" where
  "py_index xs i =
     (if 0 \<le> i \<and> i < int (length xs) then Inr (xs ! nat i)
      else if i < 0 \<and> - int (length xs) \<le> i then Inr (xs ! nat (int (length xs) + i))
      else Inl IndexError)"

subsection \<open>Arrays\<close>

text \<open>
  A label raster decoded from a PNG is a two-dimensional array of unsigned bytes, held
  as its list of rows. The sample assembler converts it to \<^verbatim>\<open>float32\<close>; every
  value it then holds is an integer from 0 to 255, which \<^verbatim>\<open>float32\<close> represents
  exactly, so a float array is held as an array of naturals. Boolean arrays are kept
  apart from them.
\<close>

type_synonym uint8 = "8 word"
type_synonym raster = "uint8 list list"
type_synonym farray = "nat list list"
type_synonym barray = "bool list list"

text \<open>\<^verbatim>\<open>np.unique\<close>: the sorted distinct values of the flattened array.\<close>

definition np_unique :: "raster \<Rightarrow> uint8 list" where
  "np_unique m = sort (remdups (concat m))"

text \<open>\<^verbatim>\<open>_mask == v\<close> for a Python integer \<open>v\<close>.\<close>

definition eq_scalar :: "raster \<Rightarrow> nat \<Rightarrow> barray" where
  "eq_scalar m v = map (map (\<lambda>x. unat x = v)) m"

text \<open>
  \<^verbatim>\<open>np.where(cond)\<close> on a two-dimensional array: the row indices and the column
  indices of the true entries, both in row-major order.
\<close>

definition np_where :: "barray \<Rightarrow> nat list \<times> nat list" where
  "np_where b =
     (let ps = [(r, c). (r, row) \<leftarrow> enumerate 0 b, (c, x) \<leftarrow> enumerate 0 row, x]
      in (map fst ps, map snd ps))"

text \<open>\<^verbatim>\<open>a[r, c]\<close> with two non-negative indices.\<close>

definition arr_get :: "'a list list \<Rightarrow> nat \<Rightarrow> nat \<Rightarrow> error + 'a" where
  "arr_get a r c =
     (if r < length a \<and> c < length (a ! r) then Inr (a ! r ! c) else Inl IndexError)"

subsection \<open>The Instance Index Builder (inside \<^verbatim>\<open>_preprocess\<close>)\<close>

text \<open>
  The number of objects of one instance raster:
  \<^verbatim>\<open>n_obj = _mask_ids[-2] if _mask_ids[-1] == 255 else _mask_ids[-1]\<close>.
\<close>

definition n_obj_of :: "raster \<Rightarrow> error + nat" where
  "n_obj_of m =
     (let mask_ids = np_unique m in
      case py_index mask_ids (- 1) of
        Inl e \<Rightarrow> Inl e
      | Inr hi \<Rightarrow>
          if hi = 255 then
            (case py_index mask_ids (- 2) of Inl e \<Rightarrow> Inl e | Inr v \<Rightarrow> Inr (unat v))
          else Inr (unat hi))"

text \<open>
  One iteration of \<^verbatim>\<open>for jj in range(n_obj)\<close>: the entry appended to
  \<^verbatim>\<open>_cat_ids\<close> for instance \<open>jj + 1\<close>.
\<close>

definition cat_entry :: "raster \<Rightarrow> raster \<Rightarrow> int \<Rightarrow> nat \<Rightarrow> error + int" where
  "cat_entry m cats area_thres jj =
     (let tmp = np_where (eq_scalar m (jj + 1));
          obj_area = length (fst tmp)
      in if int obj_area > area_thres then
           (case py_index (fst tmp) 0 of
              Inl e \<Rightarrow> Inl e
            | Inr r \<Rightarrow>
                (case py_index (snd tmp) 0 of
                   Inl e \<Rightarrow> Inl e
                 | Inr c \<Rightarrow>
                     (case arr_get cats r c of
                        Inl e \<Rightarrow> Inl e
                      | Inr v \<Rightarrow> Inr (int (unat v)))))
         else Inr (- 1))"

fun cat_loop :: "raster \<Rightarrow> raster \<Rightarrow> int \<Rightarrow> int list \<Rightarrow> nat list \<Rightarrow> error + int list" where
  "cat_loop m cats area_thres cat_ids [] = Inr cat_ids"
| "cat_loop m cats area_thres cat_ids (jj # jjs) =
     (case cat_entry m cats area_thres jj of
        Inl e \<Rightarrow> Inl e
      | Inr v \<Rightarrow> cat_loop m cats area_thres (cat_ids @ [v]) jjs)"

text \<open>The category list of one image, from its instance raster and its class raster.\<close>

definition index_builder :: "raster \<Rightarrow> raster \<Rightarrow> int \<Rightarrow> error + int list" where
  "index_builder m cats area_thres =
     (case n_obj_of m of
        Inl e \<Rightarrow> Inl e
      | Inr n_obj \<Rightarrow> cat_loop m cats area_thres [] [0..<n_obj])"


subsection \<open>Strings of integers and the cache text\<close>

text \<open>
  \<^verbatim>\<open>str(n)\<close> for an integer, \<^verbatim>\<open>sep.join(xs)\<close>, and
  \<^verbatim>\<open>json.dumps(xs)\<close> for a list of integers, which separates the items by a comma
  and a space. A string is a list of characters, one \<open>char\<close> per code point below
  256; the encoding of text files is not modelled.
\<close>

definition digit_char :: "nat \<Rightarrow> char" where
  "digit_char d = ''0123456789'' ! d"

fun str_nat :: "nat \<Rightarrow> string" where
  "str_nat n = (if n < 10 then [digit_char n] else str_nat (n div 10) @ [digit_char (n mod 10)])"

definition str_int :: "int \<Rightarrow> string" where
  "str_int i = (if i < 0 then CHR ''-'' # str_nat (nat (- i)) else str_nat (nat i))"

fun join :: "string \<Rightarrow> string list \<Rightarrow> string" where
  "join sep [] = []"
| "join sep [x] = x"
| "join sep (x # y # ys) = x @ sep @ join sep (y # ys)"

definition json_dumps :: "int list \<Rightarrow> string" where
  "json_dumps xs = ''['' @ join '', '' (map str_int xs) @ '']''"

subsection \<open>Reading the cache text: \<^verbatim>\<open>json.load\<close>\<close>

text \<open>
  \<^verbatim>\<open>json.load\<close> belongs to the Python library, not to the repository. The model
  below follows its decoder on the documents the cache can hold: one object whose keys
  are strings without escape sequences and whose values are arrays of integers, with
  JSON white space between the tokens. On such a document it returns the dictionary
  (a later occurrence of a key replacing the value of an earlier one, as Python's
  \<^verbatim>\<open>dict\<close> does). Where the text cannot be JSON at all it returns
  \<open>JSONDecodeError\<close>, at the place where the library raises it. Where the text leaves
  the modelled documents but may still be JSON (another kind of value, an escape
  sequence, a fraction or an exponent), it returns \<open>Unmodelled\<close>: the model makes no
  statement about such a file.
\<close>

type_synonym dict = "(string \<times> int list) list"

definition is_ws :: "char \<Rightarrow> bool" where
  "is_ws c \<longleftrightarrow> c = CHR '' '' \<or> c = CHR 0x09 \<or> c = CHR 0x0A \<or> c = CHR 0x0D"

definition skip_ws :: "string \<Rightarrow> string" where
  "skip_ws s = dropWhile is_ws s"

definition is_digit :: "char \<Rightarrow> bool" where
  "is_digit c \<longleftrightarrow> c \<in> set ''0123456789''"

definition digit_val :: "char \<Rightarrow> nat" where
  "digit_val c = of_char c - 48"

definition nat_of_digits :: "string \<Rightarrow> nat" where
  "nat_of_digits ds = foldl (\<lambda>n c. 10 * n + digit_val c) 0 ds"

text \<open>A character that may begin a JSON value other than an array of the cache.\<close>

definition starts_value :: "char \<Rightarrow> bool" where
  "starts_value c \<longleftrightarrow> is_digit c \<or> c \<in> set ''-{[tfnNI'' \<or> c = CHR 0x22"

definition no_value :: "char \<Rightarrow> error" where
  "no_value c = (if starts_value c then Unmodelled else JSONDecodeError)"

text \<open>
  The rest of a string after its opening quote: up to the closing quote. Strict
  decoding refuses a control character inside a string.
\<close>

fun scan_string :: "string \<Rightarrow> error + (string \<times> string)" where
  "scan_string [] = Inl JSONDecodeError"
| "scan_string (c # cs) =
     (if c = CHR 0x22 then Inr ([], cs)
      else if c = CHR 0x5C then Inl Unmodelled
      else if (of_char c :: nat) < 32 then Inl JSONDecodeError
      else (case scan_string cs of
              Inl e \<Rightarrow> Inl e
            | Inr (key, rest) \<Rightarrow> Inr (c # key, rest)))"

text \<open>An integer: an optional minus sign, then \<open>0\<close> or a digit string without leading zero.\<close>

definition scan_int :: "string \<Rightarrow> error + (int \<times> string)" where
  "scan_int s =
     (let neg = (case s of [] \<Rightarrow> False | c # _ \<Rightarrow> c = CHR ''-'');
          s1 = (if neg then tl s else s)
      in case s1 of
           [] \<Rightarrow> Inl JSONDecodeError
         | c # cs \<Rightarrow>
             if \<not> is_digit c then Inl (no_value c)
             else
               (let ds = (if c = CHR ''0'' then [c] else takeWhile is_digit s1);
                    rest = drop (length ds) s1;
                    v = int (nat_of_digits ds)
                in case rest of
                     [] \<Rightarrow> Inr (if neg then - v else v, rest)
                   | d # _ \<Rightarrow>
                       if d = CHR ''.'' \<or> d = CHR ''e'' \<or> d = CHR ''E'' then Inl Unmodelled
                       else Inr (if neg then - v else v, rest)))"

lemma length_skip_ws: "length (skip_ws s) \<le> length s"
  by (simp add: skip_ws_def length_dropWhile_le)

lemma scan_int_shorter: "scan_int s = Inr (v, rest) \<Longrightarrow> length rest < length s"
  by (auto simp: scan_int_def Let_def split: list.splits if_splits)

lemma scan_string_shorter: "scan_string s = Inr (key, rest) \<Longrightarrow> length rest < length s"
  by (induction s arbitrary: key) (auto split: if_splits sum.splits)

text \<open>The items of a non-empty array, from its first item to the closing bracket.\<close>

function scan_elems :: "string \<Rightarrow> error + (int list \<times> string)" where
  "scan_elems s =
     (case scan_int s of
        Inl e \<Rightarrow> Inl e
      | Inr (v, s1) \<Rightarrow>
          (case skip_ws s1 of
             [] \<Rightarrow> Inl JSONDecodeError
           | c # s2 \<Rightarrow>
               if c = CHR '']'' then Inr ([v], s2)
               else if c = CHR '','' then
                 (case scan_elems (skip_ws s2) of
                    Inl e \<Rightarrow> Inl e
                  | Inr (vs, rest) \<Rightarrow> Inr (v # vs, rest))
               else Inl JSONDecodeError))"
  by pat_completeness auto
termination
proof (relation "measure length")
  show "wf (measure length)" by simp
next
  fix s :: string and x2 :: "int \<times> string" and v s1 c s2
  assume a: "scan_int s = Inr x2" "(v, s1) = x2" "skip_ws s1 = c # s2"
  from a(1,2) have "length s1 < length s" by (auto dest: scan_int_shorter)
  moreover from a(3) length_skip_ws [of s1] have "length s2 < length s1" by simp
  moreover have "length (skip_ws s2) \<le> length s2" by (rule length_skip_ws)
  ultimately show "(skip_ws s2, s) \<in> measure length" by simp
qed

text \<open>An array, after its opening bracket.\<close>

definition scan_array :: "string \<Rightarrow> error + (int list \<times> string)" where
  "scan_array s =
     (case skip_ws s of
        [] \<Rightarrow> Inl JSONDecodeError
      | c # s1 \<Rightarrow> if c = CHR '']'' then Inr ([], s1) else scan_elems (c # s1))"

lemma scan_elems_shorter: "scan_elems s = Inr (vs, rest) \<Longrightarrow> length rest < length s"
proof (induction s arbitrary: vs rest rule: scan_elems.induct)
  case (1 s)
  from "1.prems" obtain v s1 where v: "scan_int s = Inr (v, s1)"
    by (subst (asm) scan_elems.simps) (auto split: sum.splits)
  then have l1: "length s1 < length s" by (rule scan_int_shorter)
  from "1.prems" v obtain c s2 where c: "skip_ws s1 = c # s2"
    by (subst (asm) scan_elems.simps) (auto split: list.splits)
  with length_skip_ws [of s1] have l2: "length s2 < length s1" by simp
  show ?case
  proof (cases "c = CHR '']''")
    case True
    with "1.prems" v c have "rest = s2"
      by (subst (asm) scan_elems.simps) simp
    with l1 l2 show ?thesis by simp
  next
    case False
    with "1.prems" v c obtain ws where ws: "scan_elems (skip_ws s2) = Inr (ws, rest)" and "c = CHR '',''"
      by (subst (asm) scan_elems.simps) (auto split: sum.splits if_splits)
    from "1.IH" [OF v refl c False \<open>c = CHR '',''\<close> ws] have "length rest < length (skip_ws s2)" .
    with length_skip_ws [of s2] l1 l2 show ?thesis by simp
  qed
qed

lemma scan_array_shorter: "scan_array s = Inr (vs, rest) \<Longrightarrow> length rest \<le> length s"
proof -
  assume a: "scan_array s = Inr (vs, rest)"
  then obtain c s1 where c: "skip_ws s = c # s1"
    by (auto simp: scan_array_def split: list.splits)
  with length_skip_ws [of s] have l: "length s1 < length s" by simp
  show ?thesis
  proof (cases "c = CHR '']''")
    case True
    with a c l show ?thesis by (simp add: scan_array_def)
  next
    case False
    with a c have "scan_elems (c # s1) = Inr (vs, rest)" by (simp add: scan_array_def)
    from scan_elems_shorter [OF this] l show ?thesis by simp
  qed
qed

text \<open>
  The members of a non-empty object, from the character after the opening quote of a
  key to the closing brace.
\<close>

function scan_members :: "string \<Rightarrow> error + (dict \<times> string)" where
  "scan_members s =
     (case scan_string s of
        Inl e \<Rightarrow> Inl e
      | Inr (key, s1) \<Rightarrow>
          (case skip_ws s1 of
             [] \<Rightarrow> Inl JSONDecodeError
           | c1 # s2 \<Rightarrow>
               if c1 \<noteq> CHR '':'' then Inl JSONDecodeError
               else
                 (case skip_ws s2 of
                    [] \<Rightarrow> Inl JSONDecodeError
                  | c2 # s3 \<Rightarrow>
                      if c2 \<noteq> CHR ''['' then Inl (no_value c2)
                      else
                        (case scan_array s3 of
                           Inl e \<Rightarrow> Inl e
                         | Inr (v, s4) \<Rightarrow>
                             (case skip_ws s4 of
                                [] \<Rightarrow> Inl JSONDecodeError
                              | c3 # s5 \<Rightarrow>
                                  if c3 = CHR ''}'' then Inr ([(key, v)], s5)
                                  else if c3 = CHR '','' then
                                    (case skip_ws s5 of
                                       [] \<Rightarrow> Inl JSONDecodeError
                                     | c4 # s6 \<Rightarrow>
                                         if c4 = CHR 0x22 then
                                           (case scan_members s6 of
                                              Inl e \<Rightarrow> Inl e
                                            | Inr (ms, rest) \<Rightarrow> Inr ((key, v) # ms, rest))
                                         else Inl JSONDecodeError)
                                  else Inl JSONDecodeError)))))"
  by pat_completeness auto
termination
proof (relation "measure length")
  show "wf (measure length)" by simp
next
  fix s :: string and x2 :: "string \<times> string" and key s1 c1 s2 c2 s3
    and y2 :: "int list \<times> string" and v s4 c3 s5 c4 s6
  assume a: "scan_string s = Inr x2" "(key, s1) = x2" "skip_ws s1 = c1 # s2"
    "skip_ws s2 = c2 # s3" "scan_array s3 = Inr y2" "(v, s4) = y2"
    "skip_ws s4 = c3 # s5" "skip_ws s5 = c4 # s6"
  from a(1,2) have "length s1 < length s" by (auto dest: scan_string_shorter)
  moreover from a(3) length_skip_ws [of s1] have "length s2 < length s1" by simp
  moreover from a(4) length_skip_ws [of s2] have "length s3 < length s2" by simp
  moreover from a(5,6) have "length s4 \<le> length s3" by (auto dest: scan_array_shorter)
  moreover from a(7) length_skip_ws [of s4] have "length s5 < length s4" by simp
  moreover from a(8) length_skip_ws [of s5] have "length s6 < length s5" by simp
  ultimately show "(s6, s) \<in> measure length" by simp
qed

text \<open>An object, after its opening brace.\<close>

definition scan_object :: "string \<Rightarrow> error + (dict \<times> string)" where
  "scan_object s =
     (case skip_ws s of
        [] \<Rightarrow> Inl JSONDecodeError
      | c # s1 \<Rightarrow>
          if c = CHR ''}'' then Inr ([], s1)
          else if c = CHR 0x22 then scan_members s1
          else Inl JSONDecodeError)"

text \<open>
  The whole document: white space, the object, white space, and nothing after it. The
  pairs become a dictionary in the order read.
\<close>

definition dict_of_pairs :: "dict \<Rightarrow> dict" where
  "dict_of_pairs ms = foldl (\<lambda>d (k, v). AList.update k v d) [] ms"

definition json_load :: "string \<Rightarrow> error + dict" where
  "json_load s =
     (case skip_ws s of
        [] \<Rightarrow> Inl JSONDecodeError
      | c # s1 \<Rightarrow>
          if c \<noteq> CHR ''{'' then Inl (no_value c)
          else
            (case scan_object s1 of
               Inl e \<Rightarrow> Inl e
             | Inr (ms, s2) \<Rightarrow>
                 if skip_ws s2 = [] then Inr (dict_of_pairs ms) else Inl JSONDecodeError))"

subsection \<open>The files and the dataset object\<close>

text \<open>
  The files under the base directory. A split file is held as the lines
  \<^verbatim>\<open>f.read().splitlines()\<close> returns (so a line holds no line break and
  \<^verbatim>\<open>line.rstrip('\n')\<close> is the line itself); the decoded image, the class raster
  and the instance raster of a line are looked up by the line, which stands for the
  three paths built from it; a text file under \<^verbatim>\<open>ImageSets/Segmentation\<close> is
  looked up by its name. A file that is absent maps to \<open>None\<close>.
\<close>

type_synonym image = "(nat \<times> nat \<times> nat) list list"

record filesystem =
  split_file :: "string \<rightharpoonup> string list"
  jpeg_image :: "string \<rightharpoonup> image"
  seg_class :: "string \<rightharpoonup> raster"
  seg_object :: "string \<rightharpoonup> raster"
  text_file :: "string \<rightharpoonup> string"

text \<open>
  A sample is a Python dictionary from a key to an image, a mask or the metadata, in
  the order the keys were stored.
\<close>

record meta =
  meta_image :: string
  meta_object :: string
  meta_category :: int
  meta_im_size :: "nat \<times> nat"

datatype sample_value = Img image | Arr farray | Meta meta

type_synonym sample = "(string \<times> sample_value) list"

datatype split_arg = SplitName string | SplitList "string list"

text \<open>The attributes of \<^verbatim>\<open>self\<close> the methods read after construction.\<close>

record dataset =
  area_thres :: int
  default :: bool
  retname :: bool
  split :: "string list"
  obj_list_file :: string
  transform :: "(sample \<Rightarrow> sample) option"
  im_ids :: "string list"
  obj_dict :: dict
  obj_list :: "(nat \<times> nat) list"

text \<open>\<^verbatim>\<open>d[k]\<close> on a dictionary.\<close>

definition dict_get :: "dict \<Rightarrow> string \<Rightarrow> error + int list" where
  "dict_get d k = (case map_of d k of None \<Rightarrow> Inl KeyError | Some v \<Rightarrow> Inr v)"

subsection \<open>\<^verbatim>\<open>_check_preprocess\<close>\<close>

definition check_preprocess :: "filesystem \<Rightarrow> dataset \<Rightarrow> error + (bool \<times> dataset)" where
  "check_preprocess fs self =
     (case text_file fs (obj_list_file self) of
        None \<Rightarrow> Inr (False, self)
      | Some txt \<Rightarrow>
          (case json_load txt of
             Inl e \<Rightarrow> Inl e
           | Inr d \<Rightarrow> Inr (sort (map fst d) = sort (im_ids self), self\<lparr>obj_dict := d\<rparr>)))"

subsection \<open>\<^verbatim>\<open>_preprocess\<close>\<close>

text \<open>The loop over the images: the catalog after the images still to visit.\<close>

fun preprocess_loop :: "filesystem \<Rightarrow> int \<Rightarrow> string list \<Rightarrow> dict \<Rightarrow> error + dict" where
  "preprocess_loop fs thres [] d = Inr d"
| "preprocess_loop fs thres (im_id # rest) d =
     (case seg_object fs im_id of
        None \<Rightarrow> Inl FileNotFoundError
      | Some m \<Rightarrow>
          (case n_obj_of m of
             Inl e \<Rightarrow> Inl e
           | Inr n_obj \<Rightarrow>
               (case seg_class fs im_id of
                  None \<Rightarrow> Inl FileNotFoundError
                | Some cats \<Rightarrow>
                    (case cat_loop m cats thres [] [0..<n_obj] of
                       Inl e \<Rightarrow> Inl e
                     | Inr cat_ids \<Rightarrow>
                         preprocess_loop fs thres rest (AList.update im_id cat_ids d)))))"

text \<open>
  The text written to the cache file: the first entry after an opening brace, every
  other entry after a comma, each on a line of its own after a tab, and the closing
  brace. The writer returns the text written so far together with the exception that
  stopped it, if any.
\<close>

definition entry_text :: "string \<Rightarrow> int list \<Rightarrow> string" where
  "entry_text im_id cat_ids =
     [CHR 0x0A, CHR 0x09, CHR 0x22] @ im_id @ [CHR 0x22] @ '': '' @ json_dumps cat_ids"

fun write_entries :: "dict \<Rightarrow> string list \<Rightarrow> string \<Rightarrow> error option \<times> string" where
  "write_entries d [] out = (None, out)"
| "write_entries d (im_id # rest) out =
     (case dict_get d im_id of
        Inl e \<Rightarrow> (Some e, out)
      | Inr cat_ids \<Rightarrow> write_entries d rest (out @ '','' @ entry_text im_id cat_ids))"

definition write_cache :: "string list \<Rightarrow> dict \<Rightarrow> error option \<times> string" where
  "write_cache ids d =
     (case py_index ids 0 of
        Inl e \<Rightarrow> (Some e, [])
      | Inr im_id \<Rightarrow>
          (case dict_get d im_id of
             Inl e \<Rightarrow> (Some e, [])
           | Inr cat_ids \<Rightarrow>
               (case write_entries d (tl ids) (''{'' @ entry_text im_id cat_ids) of
                  (Some e, out) \<Rightarrow> (Some e, out)
                | (None, out) \<Rightarrow> (None, out @ [CHR 0x0A] @ ''}'' @ [CHR 0x0A]))))"

definition preprocess :: "filesystem \<Rightarrow> dataset \<Rightarrow> (error + dataset) \<times> filesystem" where
  "preprocess fs self =
     (case preprocess_loop fs (area_thres self) (im_ids self) [] of
        Inl e \<Rightarrow> (Inl e, fs)
      | Inr d \<Rightarrow>
          (case write_cache (im_ids self) d of
             (err, out) \<Rightarrow>
               (case err of Some e \<Rightarrow> Inl e | None \<Rightarrow> Inr (self\<lparr>obj_dict := d\<rparr>),
                fs\<lparr>text_file := (text_file fs)(obj_list_file self \<mapsto> out)\<rparr>)))"

subsection \<open>The object list\<close>

text \<open>
  The two nested loops of the constructor: the pairs \<open>(ii, jj)\<close> of the entries that
  are not \<open>-1\<close>, image after image, and the number of images that gave a pair.
\<close>

fun obj_list_loop ::
  "dict \<Rightarrow> (nat \<times> string) list \<Rightarrow> (nat \<times> nat) list \<times> nat \<Rightarrow> error + ((nat \<times> nat) list \<times> nat)" where
  "obj_list_loop d [] acc = Inr acc"
| "obj_list_loop d ((ii, im_id) # rest) (objs, num_images) =
     (case dict_get d im_id of
        Inl e \<Rightarrow> Inl e
      | Inr cat_ids \<Rightarrow>
          (let new = [(ii, jj). jj \<leftarrow> [0..<length cat_ids], cat_ids ! jj \<noteq> - 1]
           in obj_list_loop d rest
                (objs @ new, if new \<noteq> [] then num_images + 1 else num_images)))"

subsection \<open>\<^verbatim>\<open>_make_img_gt_point_pair\<close>\<close>

text \<open>
  The array operations of the assembler. \<open>astype_float\<close> of a boolean array gives 0 and
  1. The two distractor arrays begin as float arrays of zeros and are replaced by the
  result of \<^verbatim>\<open>np.logical_or\<close>, which reads a float as true when it is not zero;
  they are held in their float form throughout, which is the form returned.
\<close>

definition raster_float :: "raster \<Rightarrow> farray" where
  "raster_float m = map (map unat) m"

definition feq :: "farray \<Rightarrow> nat \<Rightarrow> barray" where
  "feq a v = map (map (\<lambda>x. x = v)) a"

definition zero_where :: "farray \<Rightarrow> barray \<Rightarrow> farray" where
  "zero_where a b = map2 (map2 (\<lambda>x void. if void then 0 else x)) a b"

definition np_zeros :: "farray \<Rightarrow> farray" where
  "np_zeros a = map (map (\<lambda>_. 0)) a"

definition astype_float :: "barray \<Rightarrow> farray" where
  "astype_float b = map (map (\<lambda>x. if x then 1 else 0)) b"

definition logical_not :: "barray \<Rightarrow> barray" where
  "logical_not b = map (map Not) b"

definition logical_and :: "barray \<Rightarrow> barray \<Rightarrow> barray" where
  "logical_and a b = map2 (map2 (\<and>)) a b"

definition logical_or :: "farray \<Rightarrow> barray \<Rightarrow> farray" where
  "logical_or a b = map2 (map2 (\<lambda>x y. if x \<noteq> 0 \<or> y then 1 else 0)) a b"

definition np_max :: "farray \<Rightarrow> error + nat" where
  "np_max a = (case concat a of [] \<Rightarrow> Inl ValueError | x # xs \<Rightarrow> Inr (fold max xs x))"

text \<open>
  The loop \<^verbatim>\<open>for ii in range(1, max + 1)\<close> over the instances, with the two
  distractor arrays as its state.
\<close>

fun distractor_loop ::
  "dict \<Rightarrow> string \<Rightarrow> int \<Rightarrow> nat \<Rightarrow> farray \<Rightarrow> nat list \<Rightarrow> farray \<times> farray \<Rightarrow> error + (farray \<times> farray)" where
  "distractor_loop d im_id obj_cat obj_ii tmp [] acc = Inr acc"
| "distractor_loop d im_id obj_cat obj_ii tmp (ii # rest) (other_same_class, other_classes) =
     (case dict_get d im_id of
        Inl e \<Rightarrow> Inl e
      | Inr cat_ids \<Rightarrow>
          (case py_index cat_ids (int ii - 1) of
             Inl e \<Rightarrow> Inl e
           | Inr ii_cat \<Rightarrow>
               if obj_cat = ii_cat \<and> ii \<noteq> obj_ii + 1 then
                 distractor_loop d im_id obj_cat obj_ii tmp rest
                   (logical_or other_same_class (feq tmp ii), other_classes)
               else if ii \<noteq> obj_ii + 1 then
                 distractor_loop d im_id obj_cat obj_ii tmp rest
                   (other_same_class, logical_or other_classes (feq tmp ii))
               else distractor_loop d im_id obj_cat obj_ii tmp rest
                   (other_same_class, other_classes)))"

text \<open>
  The result is the tuple \<^verbatim>\<open>(_img, _target, _void_pixels, _other_classes,
  _other_same_class, _background)\<close>, in this order.
\<close>

type_synonym pair_tuple = "image \<times> farray \<times> farray \<times> farray \<times> farray \<times> farray"

definition make_img_gt_point_pair :: "filesystem \<Rightarrow> dataset \<Rightarrow> int \<Rightarrow> error + pair_tuple" where
  "make_img_gt_point_pair fs self index =
     (case py_index (obj_list self) index of
        Inl e \<Rightarrow> Inl e
      | Inr (im_ii, obj_ii) \<Rightarrow>
     (case py_index (im_ids self) (int im_ii) of
        Inl e \<Rightarrow> Inl e
      | Inr im_id \<Rightarrow>
     (case jpeg_image fs im_id of
        None \<Rightarrow> Inl FileNotFoundError
      | Some img \<Rightarrow>
     (case seg_object fs im_id of
        None \<Rightarrow> Inl FileNotFoundError
      | Some m \<Rightarrow>
          (let tmp0 = raster_float m;
               void_pixels = feq tmp0 255;
               tmp = zero_where tmp0 void_pixels;
               other_same_class = np_zeros tmp;
               other_classes = np_zeros tmp;
               background = logical_and (feq tmp 0) (logical_not void_pixels)
           in if default self then
                Inr (img, tmp, astype_float void_pixels, other_classes, other_same_class,
                     astype_float background)
              else
                (let target = astype_float (feq tmp (obj_ii + 1)) in
                 case dict_get (obj_dict self) im_id of
                   Inl e \<Rightarrow> Inl e
                 | Inr cat_ids \<Rightarrow>
                 (case py_index cat_ids (int obj_ii) of
                    Inl e \<Rightarrow> Inl e
                  | Inr obj_cat \<Rightarrow>
                 (case np_max tmp of
                    Inl e \<Rightarrow> Inl e
                  | Inr hi \<Rightarrow>
                 (case distractor_loop (obj_dict self) im_id obj_cat obj_ii tmp [1..<hi + 1]
                         (other_same_class, other_classes) of
                    Inl e \<Rightarrow> Inl e
                  | Inr (same, other) \<Rightarrow>
                      Inr (img, target, astype_float void_pixels, other, same,
                           astype_float background))))))))))"

subsection \<open>\<^verbatim>\<open>__len__\<close> and \<^verbatim>\<open>__getitem__\<close>\<close>

definition len :: "dataset \<Rightarrow> nat" where
  "len self = length (obj_list self)"



subsection \<open>The constructor\<close>

text \<open>
  Reading the split files: every line must have its image, its class raster and its
  instance raster.
\<close>

fun check_lines :: "filesystem \<Rightarrow> string list \<Rightarrow> error + string list" where
  "check_lines fs [] = Inr []"
| "check_lines fs (line # rest) =
     (if jpeg_image fs line = None \<or> seg_class fs line = None \<or> seg_object fs line = None
      then Inl AssertionError
      else (case check_lines fs rest of
              Inl e \<Rightarrow> Inl e
            | Inr ids \<Rightarrow> Inr (line # ids)))"

fun load_splits :: "filesystem \<Rightarrow> string list \<Rightarrow> error + string list" where
  "load_splits fs [] = Inr []"
| "load_splits fs (splt # rest) =
     (case split_file fs splt of
        None \<Rightarrow> Inl FileNotFoundError
      | Some lines \<Rightarrow>
          (case check_lines fs lines of
             Inl e \<Rightarrow> Inl e
           | Inr ids \<Rightarrow>
               (case load_splits fs rest of
                  Inl e \<Rightarrow> Inl e
                | Inr others \<Rightarrow> Inr (ids @ others))))"

definition cache_name :: "string list \<Rightarrow> int \<Rightarrow> string" where
  "cache_name splits thres =
     join ''_'' splits @ ''_instances''
       @ (if thres \<noteq> 0 then ''_area_thres-'' @ str_int thres else [])
       @ ''.txt''"

text \<open>
  The constructor up to the object list. The arguments are \<^verbatim>\<open>split\<close>,
  \<^verbatim>\<open>transform\<close>, \<^verbatim>\<open>area_thres\<close>, \<^verbatim>\<open>preprocess\<close>, \<^verbatim>\<open>default\<close> and
  \<^verbatim>\<open>retname\<close>; the base directory is the file system, and \<^verbatim>\<open>image_size\<close> is
  stored and never read.
\<close>

definition init_objects ::
  "filesystem \<Rightarrow> split_arg \<Rightarrow> (sample \<Rightarrow> sample) option \<Rightarrow> int \<Rightarrow> bool \<Rightarrow> bool \<Rightarrow> bool
     \<Rightarrow> (error + dataset) \<times> filesystem" where
  "init_objects fs split_a transform_a area_thres_a preprocess_a default_a retname_a =
     (let splits = (case split_a of SplitName s \<Rightarrow> [s] | SplitList ss \<Rightarrow> sort ss) in
      case load_splits fs splits of
        Inl e \<Rightarrow> (Inl e, fs)
      | Inr ids \<Rightarrow>
          (let self0 = \<lparr>area_thres = area_thres_a, default = default_a, retname = retname_a,
                        split = splits, obj_list_file = cache_name splits area_thres_a,
                        transform = transform_a, im_ids = ids, obj_dict = [], obj_list = []\<rparr>
           in case check_preprocess fs self0 of
                Inl e \<Rightarrow> (Inl e, fs)
              | Inr (valid, self1) \<Rightarrow>
                  (case (if \<not> valid \<or> preprocess_a then preprocess fs self1 else (Inr self1, fs)) of
                     (Inl e, fs') \<Rightarrow> (Inl e, fs')
                   | (Inr self2, fs') \<Rightarrow>
                       (case obj_list_loop (obj_dict self2) (enumerate 0 (im_ids self2)) ([], 0) of
                          Inl e \<Rightarrow> (Inl e, fs')
                        | Inr (objs, num_images) \<Rightarrow> (Inr (self2\<lparr>obj_list := objs\<rparr>), fs')))))"

text \<open>The last statement of the constructor: \<^verbatim>\<open>self._make_img_gt_point_pair(1)\<close>.\<close>

definition init ::
  "filesystem \<Rightarrow> split_arg \<Rightarrow> (sample \<Rightarrow> sample) option \<Rightarrow> int \<Rightarrow> bool \<Rightarrow> bool \<Rightarrow> bool
     \<Rightarrow> (error + dataset) \<times> filesystem" where
  "init fs split_a transform_a area_thres_a preprocess_a default_a retname_a =
     (case init_objects fs split_a transform_a area_thres_a preprocess_a default_a retname_a of
        (Inl e, fs') \<Rightarrow> (Inl e, fs')
      | (Inr self, fs') \<Rightarrow>
          (case make_img_gt_point_pair fs' self 1 of
             Inl e \<Rightarrow> (Inl e, fs')
           | Inr _ \<Rightarrow> (Inr self, fs')))"

section \<open>Notions used to state the properties\<close>



text \<open>The distinct instance ids of a raster: its values other than 0 and the boundary 255.\<close>

definition instance_ids :: "raster \<Rightarrow> nat set" where
  "instance_ids m = unat ` (set (concat m) - {0, 255})"

text \<open>
  The value of a pixel once the boundary value 255 is set to zero, and the float mask
  (1 where the predicate holds, 0 elsewhere) of the pixels of a raster that satisfy a
  predicate.
\<close>

definition void_zeroed :: "uint8 \<Rightarrow> nat" where
  "void_zeroed x = (if x = 255 then 0 else unat x)"

definition pmask :: "raster \<Rightarrow> (uint8 \<Rightarrow> bool) \<Rightarrow> farray" where
  "pmask m P = map (map (\<lambda>x. if P x then 1 else 0)) m"



text \<open>
  A small dataset for the examples: image \<open>a\<close> with one object and a boundary
  pixel, image \<open>b\<close> with three objects, two of the same class, and a boundary pixel;
  and the dataset object the constructor builds for it, in default or per-object mode.
\<close>

definition ex_fs :: filesystem where
  "ex_fs = \<lparr>split_file = [''train'' \<mapsto> [''a'', ''b'']],
            jpeg_image = [''a'' \<mapsto> [[(1, 2, 3), (4, 5, 6), (7, 8, 9)]],
                          ''b'' \<mapsto> [[(0, 0, 0), (1, 1, 1), (2, 2, 2), (3, 3, 3), (4, 4, 4)]]],
            seg_class = [''a'' \<mapsto> [[0, 5, 255]], ''b'' \<mapsto> [[0, 7, 7, 9, 255]]],
            seg_object = [''a'' \<mapsto> [[0, 1, 255]], ''b'' \<mapsto> [[0, 1, 2, 3, 255]]],
            text_file = Map.empty\<rparr>"

definition ex_self :: "bool \<Rightarrow> dataset" where
  "ex_self dflt = \<lparr>area_thres = 0, default = dflt, retname = True, split = [''train''],
         obj_list_file = ''train_instances.txt'', transform = None,
         im_ids = [''a'', ''b''],
         obj_dict = [(''a'', [5]), (''b'', [7, 7, 9])],
         obj_list = [(0, 0), (1, 0), (1, 1), (1, 2)]\<rparr>"

text \<open>
  The category list the catalog holds for an identifier (empty for a missing key), the
  number of entries of a list that are not the sentinel, the pairs one image contributes
  to the object list, and the object list as a function of the identifier list and the
  catalog.
\<close>

definition cats_of :: "dict \<Rightarrow> string \<Rightarrow> int list" where
  "cats_of d k = (case map_of d k of None \<Rightarrow> [] | Some v \<Rightarrow> v)"


definition image_objects :: "dict \<Rightarrow> nat \<Rightarrow> string \<Rightarrow> (nat \<times> nat) list" where
  "image_objects d ii im_id =
     [(ii, jj). jj \<leftarrow> [0..<length (cats_of d im_id)], cats_of d im_id ! jj \<noteq> - 1]"

definition object_list :: "string list \<Rightarrow> dict \<Rightarrow> (nat \<times> nat) list" where
  "object_list ids d = concat (map (\<lambda>(ii, im_id). image_objects d ii im_id) (enumerate 0 ids))"

text \<open>
  The cache text and the file system after the constructor has run on the example, and
  a second example with the single image \<open>a\<close>, which has one object.
\<close>

definition ex_cache :: string where
  "ex_cache = ''{'' @ [CHR 0x0A, CHR 0x09, CHR 0x22] @ ''a'' @ [CHR 0x22] @ '': [5],''
      @ [CHR 0x0A, CHR 0x09, CHR 0x22] @ ''b'' @ [CHR 0x22] @ '': [7, 7, 9]''
      @ [CHR 0x0A] @ ''}'' @ [CHR 0x0A]"

definition ex_fs_cached :: filesystem where
  "ex_fs_cached = ex_fs\<lparr>text_file := (text_file ex_fs)(''train_instances.txt'' \<mapsto> ex_cache)\<rparr>"

definition ex_fs_one :: filesystem where
  "ex_fs_one = ex_fs\<lparr>split_file := [''train'' \<mapsto> [''a'']]\<rparr>"

definition ex_cache_one :: string where
  "ex_cache_one = ''{'' @ [CHR 0x0A, CHR 0x09, CHR 0x22] @ ''a'' @ [CHR 0x22] @ '': [5]''
      @ [CHR 0x0A] @ ''}'' @ [CHR 0x0A]"

definition ex_self_one :: dataset where
  "ex_self_one = \<lparr>area_thres = 0, default = False, retname = True, split = [''train''],
         obj_list_file = ''train_instances.txt'', transform = None,
         im_ids = [''a''], obj_dict = [(''a'', [5])], obj_list = [(0, 0)]\<rparr>"

text \<open>
  A third example, built with area threshold 1: image \<open>c\<close> has an object of two pixels
  and an object of one pixel, which the area filter excludes; image \<open>d\<close> has one object.
\<close>

definition ex_fs_thr :: filesystem where
  "ex_fs_thr = \<lparr>split_file = [''val'' \<mapsto> [''c'', ''d'']],
            jpeg_image = [''c'' \<mapsto> [[(1, 1, 1), (2, 2, 2), (3, 3, 3), (4, 4, 4)]],
                          ''d'' \<mapsto> [[(0, 0, 0), (1, 1, 1), (2, 2, 2), (3, 3, 3)]]],
            seg_class = [''c'' \<mapsto> [[5, 5, 7, 0]], ''d'' \<mapsto> [[6, 6, 0, 0]]],
            seg_object = [''c'' \<mapsto> [[1, 1, 2, 0]], ''d'' \<mapsto> [[1, 1, 0, 0]]],
            text_file = Map.empty\<rparr>"

definition ex_cache_thr :: string where
  "ex_cache_thr = ''{'' @ [CHR 0x0A, CHR 0x09, CHR 0x22] @ ''c'' @ [CHR 0x22] @ '': [5, -1],''
      @ [CHR 0x0A, CHR 0x09, CHR 0x22] @ ''d'' @ [CHR 0x22] @ '': [6]''
      @ [CHR 0x0A] @ ''}'' @ [CHR 0x0A]"

definition ex_fs_thr_cached :: filesystem where
  "ex_fs_thr_cached =
     ex_fs_thr\<lparr>text_file := (text_file ex_fs_thr)(''val_instances_area_thres-1.txt'' \<mapsto> ex_cache_thr)\<rparr>"

definition ex_self_thr :: dataset where
  "ex_self_thr = \<lparr>area_thres = 1, default = False, retname = False, split = [''val''],
         obj_list_file = ''val_instances_area_thres-1.txt'', transform = None,
         im_ids = [''c'', ''d''], obj_dict = [(''c'', [5, - 1]), (''d'', [6])],
         obj_list = [(0, 0), (1, 0)]\<rparr>"

section \<open>The Instance Index Builder\<close>

subsection \<open>What \<open>np_where\<close> returns\<close>
















lemma cat_loop_Inr:
  "cat_loop m cats t acc jjs = Inr cs \<longleftrightarrow>
     (\<exists>vs. cs = acc @ vs \<and> map (cat_entry m cats t) jjs = map Inr vs)"
proof (induction jjs arbitrary: acc)
  case Nil
  then show ?case by auto
next
  case (Cons jj jjs)
  show ?case
  proof (cases "cat_entry m cats t jj")
    case (Inl e)
    then show ?thesis by (auto simp: map_eq_Cons_conv)
  next
    case (Inr v)
    then show ?thesis by (auto simp: Cons.IH map_eq_Cons_conv)
  qed
qed

lemma index_builder_Inr:
  "index_builder m cats t = Inr cs \<longleftrightarrow>
     (\<exists>n. n_obj_of m = Inr n \<and> map (cat_entry m cats t) [0..<n] = map Inr cs)"
  by (auto simp: index_builder_def cat_loop_Inr split: sum.splits)

lemma index_builder_nth:
  assumes "index_builder m cats t = Inr cs" and "n_obj_of m = Inr n"
  shows "length cs = n" and "j < n \<Longrightarrow> cat_entry m cats t j = Inr (cs ! j)"
proof -
  from assms have eq: "map (cat_entry m cats t) [0..<n] = map Inr cs"
    by (auto simp: index_builder_Inr)
  then show len: "length cs = n" by (metis length_map length_upt minus_nat.diff_0)
  assume "j < n"
  with eq len show "cat_entry m cats t j = Inr (cs ! j)"
    by (metis add_0 length_map nth_map nth_upt length_upt minus_nat.diff_0)
qed

subsection \<open>The entries of the category list\<close>



subsection \<open>The length of the category list\<close>

lemma py_index_snoc: "py_index (ys @ [l]) (- 1) = Inr l"
  by (simp add: nth_append)

lemma py_index_snoc2: "py_index (zs @ [w, l]) (- 2) = Inr w"
  by (simp add: nth_append nat_add_distrib)

lemma n_obj_of_Inr:
  assumes "n_obj_of m = Inr n"
  shows "\<exists>w \<in> set (concat m). w \<noteq> 255 \<and> n = unat w \<and> (\<forall>x \<in> set (concat m). x \<noteq> 255 \<longrightarrow> x \<le> w)"
proof -
  define ids where "ids = np_unique m"
  have srt: "sorted ids" and dst: "distinct ids" and st: "set ids = set (concat m)"
    by (simp_all add: ids_def np_unique_def)
  have ne: "ids \<noteq> []"
    using assms by (auto simp: n_obj_of_def ids_def[symmetric])
  then obtain ys l where ids: "ids = ys @ [l]" by (cases ids rule: rev_cases) auto
  from srt ids have le_l: "\<forall>x \<in> set ys. x \<le> l" by (simp add: sorted_append)
  show ?thesis
  proof (cases "l = 255")
    case False
    with assms ids have "n = unat l"
      by (simp add: n_obj_of_def ids_def[symmetric] nth_append)
    with False le_l ids st show ?thesis by (intro bexI[of _ l]) auto
  next
    case True
    have "ys \<noteq> []"
    proof
      assume "ys = []"
      with assms ids True show False by (simp add: n_obj_of_def ids_def[symmetric])
    qed
    then obtain zs w where ys: "ys = zs @ [w]" by (cases ys rule: rev_cases) auto
    with ids have ids2: "ids = zs @ [w, l]" by simp
    have p1: "py_index ids (- 1) = Inr l" unfolding ids by (rule py_index_snoc)
    have p2: "py_index ids (- 2) = Inr w" unfolding ids2 by (rule py_index_snoc2)
    from assms True have "n = unat w"
      by (simp add: n_obj_of_def ids_def[symmetric] p1 p2 del: py_index.simps)
    moreover from dst ids2 True have "w \<noteq> 255" by auto
    moreover from srt ids2 have "\<forall>x \<in> set zs. x \<le> w" by (simp add: sorted_append)
    then have "\<forall>x \<in> set (concat m). x \<noteq> 255 \<longrightarrow> x \<le> w"
      using st ids2 True by auto
    moreover have "w \<in> set (concat m)" using st ids2 by auto
    ultimately show ?thesis by blast
  qed
qed

lemma n_obj_of_bounds:
  assumes "n_obj_of m = Inr n"
  shows "\<forall>v \<in> instance_ids m. v \<le> n" and "n = 0 \<or> n \<in> instance_ids m"
proof -
  from n_obj_of_Inr[OF assms] obtain w where w: "w \<in> set (concat m)" "w \<noteq> 255" "n = unat w"
    "\<forall>x \<in> set (concat m). x \<noteq> 255 \<longrightarrow> x \<le> w" by blast
  show "\<forall>v \<in> instance_ids m. v \<le> n"
    using w(3,4) by (auto simp: instance_ids_def word_le_nat_alt)
  show "n = 0 \<or> n \<in> instance_ids m"
  proof (cases "w = 0")
    case True
    with w(3) show ?thesis by simp
  next
    case False
    with w show ?thesis by (auto simp: instance_ids_def)
  qed
qed

text \<open>
  Claim C5, as amended. Whenever the builder returns a list, its length is the largest
  instance id of the raster (0 when the raster has none): no instance id exceeds it,
  and it is 0 or an instance id itself. When the instance ids are contiguous, that is
  exactly \<open>1..k\<close> for some \<open>k\<close>, the length is their number.
\<close>

theorem index_builder_length:
  assumes "index_builder m cats t = Inr cs"
  shows "(\<forall>v \<in> instance_ids m. v \<le> length cs) \<and>
         (length cs = 0 \<or> length cs \<in> instance_ids m) \<and>
         ((\<exists>k. instance_ids m = {1..k}) \<longrightarrow> length cs = card (instance_ids m))"
proof -
  from assms obtain n where n: "n_obj_of m = Inr n"
    by (auto simp: index_builder_Inr)
  from index_builder_nth(1)[OF assms n] have len: "length cs = n" .
  note b = n_obj_of_bounds[OF n]
  have eq: "length cs = card (instance_ids m)" if "instance_ids m = {1..k}" for k
  proof (cases "k = 0")
    case True
    with that b(2) len show ?thesis by auto
  next
    case False
    with that have "k \<in> instance_ids m" by simp
    with b(1) have "k \<le> n" by blast
    moreover from b(2) that False have "n \<le> k" by auto
    ultimately show ?thesis using that len by simp
  qed
  show ?thesis
  proof (intro conjI impI)
    show "\<forall>v \<in> instance_ids m. v \<le> length cs" using b(1) len by simp
    show "length cs = 0 \<or> length cs \<in> instance_ids m" using b(2) len by simp
    assume "\<exists>k. instance_ids m = {1..k}"
    then obtain k where "instance_ids m = {1..k}" ..
    then show "length cs = card (instance_ids m)" by (rule eq)
  qed
qed

theorem index_builder_length_witness:
  "index_builder [[0, 2, 255], [1, 1, 0]] [[0, 7, 255], [5, 5, 0]] 0 = Inr [5, 7] \<and>
   instance_ids [[0, 2, 255], [1, 1, 0]] = {1..2} \<and>
   length [5, 7 :: int] = card (instance_ids [[0, 2, 255], [1, 1, 0]])"
proof -
  have run: "index_builder [[0, 2, 255], [1, 1, 0]] [[0, 7, 255], [5, 5, 0]] 0 = Inr [5, 7]"
    by code_simp
  have "set (concat [[0, 2, 255], [1, 1, 0 :: uint8]]) - {0, 255} = {1, 2}"
    by (simp add: insert_Diff_if insert_commute)
  then have "instance_ids [[0, 2, 255], [1, 1, 0]] = {1, 2}"
    by (simp add: instance_ids_def)
  also have "{1, 2 :: nat} = {1..2}" by auto
  finally have ids: "instance_ids [[0, 2, 255], [1, 1, 0]] = {1..2}" .
  then have ex: "\<exists>k. instance_ids [[0, 2, 255], [1, 1, 0]] = {1..k}" ..
  from index_builder_length [OF run]
  have "(\<exists>k. instance_ids [[0, 2, 255], [1, 1, 0]] = {1..k}) \<longrightarrow>
        length [5, 7 :: int] = card (instance_ids [[0, 2, 255], [1, 1, 0]])"
    by (elim conjE)
  from this ex have "length [5, 7 :: int] = card (instance_ids [[0, 2, 255], [1, 1, 0]])"
    by (rule mp)
  with run ids show ?thesis by (intro conjI)
qed

text \<open>
  The claim as stated fails on a raster whose ids have a gap: the raster with the values
  0 and 2 has one instance id and a category list of length two.
\<close>

theorem index_builder_length_counterexample:
  "index_builder [[0, 2]] [[0, 7]] 0 = Inr [- 1, 7] \<and>
   card (instance_ids [[0, 2]]) = 1 \<and>
   length [- 1, 7 :: int] \<noteq> card (instance_ids [[0, 2]])"
proof -
  have run: "index_builder [[0, 2]] [[0, 7]] 0 = Inr [- 1, 7]" by code_simp
  have "set (concat [[0, 2 :: uint8]]) - {0, 255} = {2}"
    by (simp add: insert_Diff_if)
  then have "instance_ids [[0, 2]] = {2}" by (simp add: instance_ids_def)
  then have c: "card (instance_ids [[0, 2]]) = 1" by simp
  then have "length [- 1, 7 :: int] \<noteq> card (instance_ids [[0, 2]])" by simp
  with run c show ?thesis by (intro conjI)
qed

section \<open>The Sample Assembler\<close>

subsection \<open>The masks in closed form\<close>

lemma map2_rows:
  "map2 (map2 h) (map (map f) a) (map (map g) a) = map (map (\<lambda>x. h (f x) (g x))) a"
  by (induction a) (simp_all add: map2_map_map)

lemma pmask_cong: "(\<And>x. x \<in> set (concat m) \<Longrightarrow> P x = Q x) \<Longrightarrow> pmask m P = pmask m Q"
  by (auto simp: pmask_def)

lemma unat_255: "(unat (x :: uint8) = 255) = (x = 255)"
  by (simp add: word_unat_eq_iff)

lemma tmp_closed:
  "zero_where (raster_float m) (feq (raster_float m) 255) = map (map void_zeroed) m"
proof -
  have "zero_where (raster_float m) (feq (raster_float m) 255) =
        map2 (map2 (\<lambda>x void. if void then 0 else x)) (map (map unat) m) (map (map (\<lambda>x. unat x = 255)) m)"
    by (simp add: zero_where_def raster_float_def feq_def comp_def)
  also have "\<dots> = map (map (\<lambda>x. if unat x = 255 then 0 else unat x)) m"
    by (rule map2_rows)
  also have "\<dots> = map (map void_zeroed) m"
    by (simp add: void_zeroed_def unat_255)
  finally show ?thesis .
qed

lemma void_closed: "astype_float (feq (raster_float m) 255) = pmask m (\<lambda>x. x = 255)"
  by (simp add: astype_float_def feq_def raster_float_def pmask_def comp_def unat_255)

lemma zeros_closed: "np_zeros (map (map void_zeroed) m) = pmask m (\<lambda>_. False)"
  by (simp add: np_zeros_def pmask_def comp_def)

lemma target_closed:
  "astype_float (feq (map (map void_zeroed) m) v) = pmask m (\<lambda>x. void_zeroed x = v)"
  by (simp add: astype_float_def feq_def pmask_def comp_def)

lemma background_closed:
  "astype_float (logical_and (feq (map (map void_zeroed) m) 0) (logical_not (feq (raster_float m) 255)))
     = pmask m (\<lambda>x. void_zeroed x = 0 \<and> x \<noteq> 255)"
proof -
  have "logical_and (feq (map (map void_zeroed) m) 0) (logical_not (feq (raster_float m) 255)) =
        map2 (map2 (\<and>)) (map (map (\<lambda>x. void_zeroed x = 0)) m) (map (map (\<lambda>x. \<not> unat x = 255)) m)"
    by (simp add: logical_and_def logical_not_def feq_def raster_float_def comp_def)
  also have "\<dots> = map (map (\<lambda>x. void_zeroed x = 0 \<and> \<not> unat x = 255)) m"
    by (rule map2_rows)
  finally show ?thesis
    by (simp add: astype_float_def pmask_def comp_def unat_255)
qed

lemma logical_or_closed:
  "logical_or (pmask m P) (feq (map (map void_zeroed) m) v) = pmask m (\<lambda>x. P x \<or> void_zeroed x = v)"
proof -
  have "logical_or (pmask m P) (feq (map (map void_zeroed) m) v) =
        map2 (map2 (\<lambda>x y. if x \<noteq> 0 \<or> y then 1 else 0))
          (map (map (\<lambda>x. if P x then 1 else 0 :: nat)) m) (map (map (\<lambda>x. void_zeroed x = v)) m)"
    by (simp add: logical_or_def pmask_def feq_def comp_def)
  also have "\<dots> = map (map (\<lambda>x. if (if P x then 1 else 0 :: nat) \<noteq> 0 \<or> void_zeroed x = v then 1 else 0)) m"
    by (rule map2_rows)
  also have "\<dots> = pmask m (\<lambda>x. P x \<or> void_zeroed x = v)"
    by (simp add: pmask_def)
  finally show ?thesis .
qed


lemma py_index_pred: "1 \<le> ii \<Longrightarrow> py_index cats (int ii - 1) = (if ii \<le> length cats then Inr (cats ! (ii - 1)) else Inl IndexError)"
  by (auto simp: nat_diff_distrib')

lemma distractor_loop_closed:
  assumes d: "dict_get d im_id = Inr cats" and pos: "\<forall>ii \<in> set iis. 1 \<le> ii"
  shows "distractor_loop d im_id oc oi (map (map void_zeroed) m) iis (pmask m P, pmask m Q) =
     (if \<forall>ii \<in> set iis. ii \<le> length cats then
        Inr (pmask m (\<lambda>x. P x \<or> (void_zeroed x \<in> set iis \<and> void_zeroed x \<noteq> oi + 1 \<and>
                              cats ! (void_zeroed x - 1) = oc)),
             pmask m (\<lambda>x. Q x \<or> (void_zeroed x \<in> set iis \<and> void_zeroed x \<noteq> oi + 1 \<and>
                              cats ! (void_zeroed x - 1) \<noteq> oc)))
      else Inl IndexError)"
  using pos
proof (induction iis arbitrary: P Q)
  case Nil
  then show ?case by simp
next
  case (Cons ii iis)
  from Cons.prems have ii: "1 \<le> ii" and rest: "\<forall>ii \<in> set iis. 1 \<le> ii" by simp_all
  note idx = py_index_pred [OF ii, of cats]
  show ?case
  proof (cases "ii \<le> length cats")
    case False
    then show ?thesis by (simp add: d idx del: py_index.simps)
  next
    case True
    then have idx': "py_index cats (int ii - 1) = Inr (cats ! (ii - 1))" by (simp only: idx if_True)
    have step: "distractor_loop d im_id oc oi (map (map void_zeroed) m) (ii # iis) (pmask m P, pmask m Q) =
       (if oc = cats ! (ii - 1) \<and> ii \<noteq> oi + 1 then
          distractor_loop d im_id oc oi (map (map void_zeroed) m) iis
            (pmask m (\<lambda>x. P x \<or> void_zeroed x = ii), pmask m Q)
        else if ii \<noteq> oi + 1 then
          distractor_loop d im_id oc oi (map (map void_zeroed) m) iis
            (pmask m P, pmask m (\<lambda>x. Q x \<or> void_zeroed x = ii))
        else distractor_loop d im_id oc oi (map (map void_zeroed) m) iis (pmask m P, pmask m Q))"
      by (simp only: distractor_loop.simps d idx' sum.case logical_or_closed)
    consider (same) "oc = cats ! (ii - 1)" "ii \<noteq> oi + 1"
      | (other) "oc \<noteq> cats ! (ii - 1)" "ii \<noteq> oi + 1"
      | (self) "ii = oi + 1" by blast
    then show ?thesis
    proof cases
      case same
      have "distractor_loop d im_id oc oi (map (map void_zeroed) m) (ii # iis) (pmask m P, pmask m Q) =
            distractor_loop d im_id oc oi (map (map void_zeroed) m) iis
              (pmask m (\<lambda>x. P x \<or> void_zeroed x = ii), pmask m Q)"
        unfolding step using same by simp
      also note Cons.IH [OF rest]
      finally show ?thesis
        using True same by (auto intro!: pmask_cong)
    next
      case other
      have "distractor_loop d im_id oc oi (map (map void_zeroed) m) (ii # iis) (pmask m P, pmask m Q) =
            distractor_loop d im_id oc oi (map (map void_zeroed) m) iis
              (pmask m P, pmask m (\<lambda>x. Q x \<or> void_zeroed x = ii))"
        unfolding step using other by simp
      also note Cons.IH [OF rest]
      finally show ?thesis
        using True other by (auto intro!: pmask_cong)
    next
      case self
      have "distractor_loop d im_id oc oi (map (map void_zeroed) m) (ii # iis) (pmask m P, pmask m Q) =
            distractor_loop d im_id oc oi (map (map void_zeroed) m) iis (pmask m P, pmask m Q)"
        unfolding step using self by simp
      also note Cons.IH [OF rest]
      finally show ?thesis
        using True self by (auto intro!: pmask_cong)
    qed
  qed
qed

lemma np_max_Inr:
  assumes "np_max (map (map f) m) = Inr hi"
  shows "\<forall>x \<in> set (concat m). f x \<le> hi"
proof -
  have c: "concat (map (map f) m) = map f (concat m)" by (simp add: map_concat)
  from assms obtain y ys where y: "map f (concat m) = y # ys" "hi = fold max ys y"
    by (auto simp: np_max_def c split: list.splits)
  have "hi = Max (set (y # ys))" by (simp only: y(2) Max.set_eq_fold)
  then have "\<forall>v \<in> set (y # ys). v \<le> hi" by simp
  with y(1) show ?thesis by (metis image_eqI list.set_map)
qed


lemma pmask_range:
  assumes "\<And>x. x \<in> set (concat m) \<Longrightarrow> f x \<le> hi"
  shows "pmask m (\<lambda>x. False \<or> (f x \<in> set [1..<hi + 1] \<and> R x)) = pmask m (\<lambda>x. 1 \<le> f x \<and> R x)"
proof (rule pmask_cong)
  fix x assume "x \<in> set (concat m)"
  then have "f x \<le> hi" by (rule assms)
  then show "(False \<or> (f x \<in> set [1..<hi + 1] \<and> R x)) = (1 \<le> f x \<and> R x)" by auto
qed

lemma make_pair_lookup:
  assumes "make_img_gt_point_pair fs self index = Inr res"
  obtains im_ii obj_ii im_id img m where
    "py_index (obj_list self) index = Inr (im_ii, obj_ii)"
    "py_index (im_ids self) (int im_ii) = Inr im_id"
    "jpeg_image fs im_id = Some img" "seg_object fs im_id = Some m"
  using assms unfolding make_img_gt_point_pair_def
  by (auto split: sum.splits option.splits simp del: py_index.simps)

lemma make_pair_default:
  assumes "default self"
    and "py_index (obj_list self) index = Inr (im_ii, obj_ii)"
    and "py_index (im_ids self) (int im_ii) = Inr im_id"
    and "jpeg_image fs im_id = Some img" and "seg_object fs im_id = Some m"
  shows "make_img_gt_point_pair fs self index =
     Inr (img, map (map void_zeroed) m, pmask m (\<lambda>x. x = 255), pmask m (\<lambda>_. False),
          pmask m (\<lambda>_. False), pmask m (\<lambda>x. void_zeroed x = 0 \<and> x \<noteq> 255))"
  unfolding make_img_gt_point_pair_def
  by (simp only: assms sum.case option.case prod.case Let_def if_True tmp_closed void_closed
        zeros_closed background_closed)

lemma make_pair_object:
  assumes "\<not> default self"
    and "py_index (obj_list self) index = Inr (im_ii, obj_ii)"
    and "py_index (im_ids self) (int im_ii) = Inr im_id"
    and "jpeg_image fs im_id = Some img" and "seg_object fs im_id = Some m"
    and d: "dict_get (obj_dict self) im_id = Inr cats"
    and "py_index cats (int obj_ii) = Inr obj_cat"
  shows "make_img_gt_point_pair fs self index =
     (case np_max (map (map void_zeroed) m) of
        Inl e \<Rightarrow> Inl e
      | Inr hi \<Rightarrow>
          if hi \<le> length cats then
            Inr (img, pmask m (\<lambda>x. void_zeroed x = obj_ii + 1), pmask m (\<lambda>x. x = 255),
                 pmask m (\<lambda>x. 1 \<le> void_zeroed x \<and> void_zeroed x \<noteq> obj_ii + 1 \<and>
                               cats ! (void_zeroed x - 1) \<noteq> obj_cat),
                 pmask m (\<lambda>x. 1 \<le> void_zeroed x \<and> void_zeroed x \<noteq> obj_ii + 1 \<and>
                               cats ! (void_zeroed x - 1) = obj_cat),
                 pmask m (\<lambda>x. void_zeroed x = 0 \<and> x \<noteq> 255))
          else Inl IndexError)"
proof -
  have unf: "make_img_gt_point_pair fs self index =
     (case np_max (map (map void_zeroed) m) of
        Inl e \<Rightarrow> Inl e
      | Inr hi \<Rightarrow>
          (case distractor_loop (obj_dict self) im_id obj_cat obj_ii (map (map void_zeroed) m)
                  [1..<hi + 1] (pmask m (\<lambda>_. False), pmask m (\<lambda>_. False)) of
             Inl e \<Rightarrow> Inl e
           | Inr (same, other) \<Rightarrow>
               Inr (img, pmask m (\<lambda>x. void_zeroed x = obj_ii + 1), pmask m (\<lambda>x. x = 255),
                    other, same, pmask m (\<lambda>x. void_zeroed x = 0 \<and> x \<noteq> 255))))"
    unfolding make_img_gt_point_pair_def
    by (simp only: assms sum.case option.case prod.case Let_def if_False tmp_closed void_closed
          zeros_closed background_closed target_closed)
  show ?thesis
  proof (cases "np_max (map (map void_zeroed) m)")
    case (Inl e)
    then show ?thesis by (simp only: unf sum.case)
  next
    case (Inr hi)
    have pos: "\<forall>ii \<in> set [1..<hi + 1]. 1 \<le> ii" by auto
    have rng: "(\<forall>ii \<in> set [1..<hi + 1]. ii \<le> length cats) = (hi \<le> length cats)" by auto
    have le: "\<And>x. x \<in> set (concat m) \<Longrightarrow> void_zeroed x \<le> hi"
      using np_max_Inr [OF Inr] by blast
    have s: "pmask m (\<lambda>x. False \<or> (void_zeroed x \<in> set [1..<hi + 1] \<and> void_zeroed x \<noteq> obj_ii + 1 \<and>
                              cats ! (void_zeroed x - 1) = obj_cat)) =
             pmask m (\<lambda>x. 1 \<le> void_zeroed x \<and> void_zeroed x \<noteq> obj_ii + 1 \<and>
                               cats ! (void_zeroed x - 1) = obj_cat)"
      by (rule pmask_range) (rule le)
    have o: "pmask m (\<lambda>x. False \<or> (void_zeroed x \<in> set [1..<hi + 1] \<and> void_zeroed x \<noteq> obj_ii + 1 \<and>
                              cats ! (void_zeroed x - 1) \<noteq> obj_cat)) =
             pmask m (\<lambda>x. 1 \<le> void_zeroed x \<and> void_zeroed x \<noteq> obj_ii + 1 \<and>
                               cats ! (void_zeroed x - 1) \<noteq> obj_cat)"
      by (rule pmask_range) (rule le)
    show ?thesis
      unfolding unf Inr sum.case distractor_loop_closed [OF d pos] rng s o
      by simp
  qed
qed

subsection \<open>Default mode\<close>

lemma make_pair_object_lookup:
  assumes "\<not> default self" and "make_img_gt_point_pair fs self index = Inr res"
  obtains im_ii obj_ii im_id img m cats obj_cat where
    "py_index (obj_list self) index = Inr (im_ii, obj_ii)"
    "py_index (im_ids self) (int im_ii) = Inr im_id"
    "jpeg_image fs im_id = Some img" "seg_object fs im_id = Some m"
    "dict_get (obj_dict self) im_id = Inr cats" "py_index cats (int obj_ii) = Inr obj_cat"
  using assms unfolding make_img_gt_point_pair_def Let_def
  by (auto split: sum.splits option.splits simp del: py_index.simps)

lemma pmask_nth:
  "r < length m \<Longrightarrow> c < length (m ! r) \<Longrightarrow> pmask m P ! r ! c = (if P (m ! r ! c) then 1 else 0)"
  by (simp add: pmask_def)

lemma length_pmask: "map length (pmask m P) = map length m"
  by (simp add: pmask_def comp_def)

text \<open>
  Claim C8. In default mode the assembler returns, for the instance raster \<open>m\<close> of the
  image: as target the raster with the boundary value 255 set to zero and every other
  value kept (not binarised), pixel for pixel; as void mask the pixels of value 255; two
  distractor masks that are zero everywhere; and as background the pixels where the
  void-zeroed raster is 0 and the pixel is not void.
\<close>

theorem default_mode_sample:
  assumes "default self"
    and "py_index (obj_list self) index = Inr (im_ii, obj_ii)"
    and "py_index (im_ids self) (int im_ii) = Inr im_id"
    and "jpeg_image fs im_id = Some img" and "seg_object fs im_id = Some m"
  shows "make_img_gt_point_pair fs self index =
     Inr (img,
          map (map (\<lambda>x. if x = 255 then 0 else unat x)) m,
          map (map (\<lambda>x. if x = 255 then 1 else 0)) m,
          map (map (\<lambda>_. 0)) m,
          map (map (\<lambda>_. 0)) m,
          map (map (\<lambda>x. if (if x = 255 then 0 else unat x) = 0 \<and> x \<noteq> 255 then 1 else 0)) m)"
proof -
  have v: "void_zeroed = (\<lambda>x. if x = 255 then 0 else unat x)"
    by (rule ext) (simp add: void_zeroed_def)
  show ?thesis
    unfolding make_pair_default [OF assms] pmask_def v by simp
qed

theorem default_mode_sample_witness:
  "default (ex_self True) \<and>
   py_index (obj_list (ex_self True)) 3 = Inr (1, 2) \<and>
   py_index (im_ids (ex_self True)) (int 1) = Inr ''b'' \<and>
   seg_object ex_fs ''b'' = Some [[0, 1, 2, 3, 255]] \<and>
   make_img_gt_point_pair ex_fs (ex_self True) 3 =
     Inr ([[(0, 0, 0), (1, 1, 1), (2, 2, 2), (3, 3, 3), (4, 4, 4)]],
          [[0, 1, 2, 3, 0]], [[0, 0, 0, 0, 1]], [[0, 0, 0, 0, 0]], [[0, 0, 0, 0, 0]],
          [[1, 0, 0, 0, 0]])"
proof -
  have h1: "default (ex_self True)" by (simp add: ex_self_def)
  have h2: "py_index (obj_list (ex_self True)) 3 = Inr (1, 2)" by (simp add: ex_self_def)
  have h3: "py_index (im_ids (ex_self True)) (int 1) = Inr ''b''" by (simp add: ex_self_def)
  have h4: "jpeg_image ex_fs ''b'' = Some [[(0, 0, 0), (1, 1, 1), (2, 2, 2), (3, 3, 3), (4, 4, 4)]]"
    by (simp add: ex_fs_def)
  have h5: "seg_object ex_fs ''b'' = Some [[0, 1, 2, 3, 255]]" by (simp add: ex_fs_def)
  from default_mode_sample [OF h1 h2 h3 h4 h5] h1 h2 h3 h5 show ?thesis by simp
qed

subsection \<open>Per-object mode\<close>

lemma per_object_masks:
  assumes nd: "\<not> default self"
    and res: "make_img_gt_point_pair fs self index =
            Inr (img, target, void_pixels, other_classes, other_same_class, background)"
    and l1: "py_index (obj_list self) index = Inr (im_ii, obj_ii)"
    and l2: "py_index (im_ids self) (int im_ii) = Inr im_id"
    and l3: "seg_object fs im_id = Some m"
  obtains cats obj_cat where
    "dict_get (obj_dict self) im_id = Inr cats" "py_index cats (int obj_ii) = Inr obj_cat"
    "target = pmask m (\<lambda>x. void_zeroed x = obj_ii + 1)"
    "void_pixels = pmask m (\<lambda>x. x = 255)"
    "other_classes = pmask m (\<lambda>x. 1 \<le> void_zeroed x \<and> void_zeroed x \<noteq> obj_ii + 1 \<and>
                               cats ! (void_zeroed x - 1) \<noteq> obj_cat)"
    "other_same_class = pmask m (\<lambda>x. 1 \<le> void_zeroed x \<and> void_zeroed x \<noteq> obj_ii + 1 \<and>
                               cats ! (void_zeroed x - 1) = obj_cat)"
    "background = pmask m (\<lambda>x. void_zeroed x = 0 \<and> x \<noteq> 255)"
    "\<forall>x \<in> set (concat m). void_zeroed x \<le> length cats"
proof -
  from make_pair_object_lookup [OF nd res] obtain im_ii' obj_ii' im_id' img' m' cats obj_cat where
    k: "py_index (obj_list self) index = Inr (im_ii', obj_ii')"
       "py_index (im_ids self) (int im_ii') = Inr im_id'"
       "jpeg_image fs im_id' = Some img'" "seg_object fs im_id' = Some m'"
       "dict_get (obj_dict self) im_id' = Inr cats" "py_index cats (int obj_ii') = Inr obj_cat"
    by blast
  from k(1) l1 have e1: "im_ii' = im_ii" "obj_ii' = obj_ii" by simp_all
  from k(2) l2 e1 have e2: "im_id' = im_id" by simp
  from k(4) l3 e2 have e3: "m' = m" by simp
  note eq = make_pair_object [OF nd l1 l2 k(3) [unfolded e2] l3 k(5) [unfolded e2] k(6) [unfolded e1]]
  from res eq obtain hi where hi: "np_max (map (map void_zeroed) m) = Inr hi"
    by (cases "np_max (map (map void_zeroed) m)") simp_all
  from res eq hi have le: "hi \<le> length cats"
    by (cases "hi \<le> length cats") simp_all
  from res eq hi le have
    "target = pmask m (\<lambda>x. void_zeroed x = obj_ii + 1)"
    "void_pixels = pmask m (\<lambda>x. x = 255)"
    "other_classes = pmask m (\<lambda>x. 1 \<le> void_zeroed x \<and> void_zeroed x \<noteq> obj_ii + 1 \<and>
                               cats ! (void_zeroed x - 1) \<noteq> obj_cat)"
    "other_same_class = pmask m (\<lambda>x. 1 \<le> void_zeroed x \<and> void_zeroed x \<noteq> obj_ii + 1 \<and>
                               cats ! (void_zeroed x - 1) = obj_cat)"
    "background = pmask m (\<lambda>x. void_zeroed x = 0 \<and> x \<noteq> 255)"
    by simp_all
  moreover from np_max_Inr [OF hi] le have "\<forall>x \<in> set (concat m). void_zeroed x \<le> length cats"
    by (meson le_trans)
  ultimately show thesis
    using that [OF k(5) [unfolded e2] k(6) [unfolded e1]] by blast
qed

text \<open>
  Claim C7. In per-object mode, at every pixel of an assembled sample, each of the five
  masks (target, same-class distractor, other-class distractor, void, background) has
  the shape of the raster and the value 0 or 1, and exactly one of them is 1: no pixel
  is set in two of the masks, outside the void region or inside it.
\<close>

theorem per_object_masks_disjoint:
  assumes "\<not> default self"
    and "make_img_gt_point_pair fs self index =
            Inr (img, target, void_pixels, other_classes, other_same_class, background)"
    and "py_index (obj_list self) index = Inr (im_ii, obj_ii)"
    and "py_index (im_ids self) (int im_ii) = Inr im_id"
    and "seg_object fs im_id = Some m"
    and r: "r < length m" and c: "c < length (m ! r)"
  shows "(\<forall>a \<in> set [target, other_same_class, other_classes, void_pixels, background].
            map length a = map length m \<and> (a ! r ! c = 0 \<or> a ! r ! c = 1)) \<and>
         length (filter (\<lambda>a. a ! r ! c = 1)
                   [target, other_same_class, other_classes, void_pixels, background]) = 1"
proof -
  from assms(1-5) obtain cats obj_cat where
    d: "dict_get (obj_dict self) im_id = Inr cats" "py_index cats (int obj_ii) = Inr obj_cat" and
    m: "target = pmask m (\<lambda>x. void_zeroed x = obj_ii + 1)"
       "void_pixels = pmask m (\<lambda>x. x = 255)"
       "other_classes = pmask m (\<lambda>x. 1 \<le> void_zeroed x \<and> void_zeroed x \<noteq> obj_ii + 1 \<and>
                               cats ! (void_zeroed x - 1) \<noteq> obj_cat)"
       "other_same_class = pmask m (\<lambda>x. 1 \<le> void_zeroed x \<and> void_zeroed x \<noteq> obj_ii + 1 \<and>
                               cats ! (void_zeroed x - 1) = obj_cat)"
       "background = pmask m (\<lambda>x. void_zeroed x = 0 \<and> x \<noteq> 255)" and
    b: "\<forall>x \<in> set (concat m). void_zeroed x \<le> length cats"
    by (rule per_object_masks)
  define x where "x = m ! r ! c"
  note nth = pmask_nth [OF r c, folded x_def]
  have shape: "\<forall>a \<in> set [target, other_same_class, other_classes, void_pixels, background].
            map length a = map length m \<and> (a ! r ! c = 0 \<or> a ! r ! c = 1)"
    by (simp add: m nth length_pmask)
  have vz: "void_zeroed 255 = 0" by (simp add: void_zeroed_def)
  consider (void) "x = 255" | (bg) "x \<noteq> 255" "void_zeroed x = 0"
    | (tgt) "x \<noteq> 255" "void_zeroed x = obj_ii + 1"
    | (same) "x \<noteq> 255" "1 \<le> void_zeroed x" "void_zeroed x \<noteq> obj_ii + 1" "cats ! (void_zeroed x - 1) = obj_cat"
    | (other) "x \<noteq> 255" "1 \<le> void_zeroed x" "void_zeroed x \<noteq> obj_ii + 1" "cats ! (void_zeroed x - 1) \<noteq> obj_cat"
    by (cases "void_zeroed x") auto
  then have "length (filter (\<lambda>a. a ! r ! c = 1)
                   [target, other_same_class, other_classes, void_pixels, background]) = 1"
  proof cases
    case void
    then show ?thesis by (simp add: m nth vz)
  next
    case bg
    then show ?thesis by (simp add: m nth)
  next
    case tgt
    then show ?thesis by (simp add: m nth)
  next
    case same
    then show ?thesis by (simp add: m nth)
  next
    case other
    then show ?thesis by (simp add: m nth)
  qed
  with shape show ?thesis by (rule conjI)
qed


theorem per_object_masks_disjoint_witness:
  "\<not> default (ex_self False) \<and>
   make_img_gt_point_pair ex_fs (ex_self False) 1 =
     Inr ([[(0, 0, 0), (1, 1, 1), (2, 2, 2), (3, 3, 3), (4, 4, 4)]],
          [[0, 1, 0, 0, 0]], [[0, 0, 0, 0, 1]], [[0, 0, 0, 1, 0]], [[0, 0, 1, 0, 0]],
          [[1, 0, 0, 0, 0]]) \<and>
   py_index (obj_list (ex_self False)) 1 = Inr (1, 0) \<and>
   py_index (im_ids (ex_self False)) (int 1) = Inr ''b'' \<and>
   seg_object ex_fs ''b'' = Some [[0, 1, 2, 3, 255]] \<and>
   length (filter (\<lambda>a. a ! 0 ! 2 = (1 :: nat))
     [[[0, 1, 0, 0, 0]], [[0, 0, 1, 0, 0]], [[0, 0, 0, 1, 0]], [[0, 0, 0, 0, 1]], [[1, 0, 0, 0, 0]]]) = 1"
proof -
  have h1: "\<not> default (ex_self False)" by (simp add: ex_self_def)
  have h2: "make_img_gt_point_pair ex_fs (ex_self False) 1 =
     Inr ([[(0, 0, 0), (1, 1, 1), (2, 2, 2), (3, 3, 3), (4, 4, 4)]],
          [[0, 1, 0, 0, 0]], [[0, 0, 0, 0, 1]], [[0, 0, 0, 1, 0]], [[0, 0, 1, 0, 0]],
          [[1, 0, 0, 0, 0]])"
    by code_simp
  have h3: "py_index (obj_list (ex_self False)) 1 = Inr (1, 0)" by (simp add: ex_self_def)
  have h4: "py_index (im_ids (ex_self False)) (int 1) = Inr ''b''" by (simp add: ex_self_def)
  have h5: "seg_object ex_fs ''b'' = Some [[0, 1, 2, 3, 255]]" by (simp add: ex_fs_def)
  have h6: "0 < length [[0, 1, 2, 3, 255 :: uint8]]" by simp
  have h7: "2 < length ([[0, 1, 2, 3, 255 :: uint8]] ! 0)" by simp
  from per_object_masks_disjoint [OF h1 h2 h3 h4 h5 h6 h7]
  have "length (filter (\<lambda>a. a ! 0 ! 2 = (1 :: nat))
     [[[0, 1, 0, 0, 0]], [[0, 0, 1, 0, 0]], [[0, 0, 0, 1, 0]], [[0, 0, 0, 0, 1]], [[1, 0, 0, 0, 0]]]) = 1"
    by (rule conjunct2)
  with h1 h2 h3 h4 h5 show ?thesis by (intro conjI)
qed

section \<open>The Object List and the constructor\<close>

subsection \<open>The object list in closed form\<close>

lemma obj_list_loop_Inr:
  "obj_list_loop d (enumerate k ids) (objs, n) = Inr (objs', n') \<Longrightarrow>
     objs' = objs @ concat (map (\<lambda>(ii, im_id). image_objects d ii im_id) (enumerate k ids)) \<and>
     (\<forall>im_id \<in> set ids. map_of d im_id \<noteq> None)"
proof (induction ids arbitrary: k objs n)
  case Nil
  then show ?case by simp
next
  case (Cons im_id ids)
  from Cons.prems obtain cats where c: "map_of d im_id = Some cats"
    by (auto simp: dict_get_def split: option.splits)
  then have io: "[(k, jj). jj \<leftarrow> [0..<length cats], cats ! jj \<noteq> - 1] = image_objects d k im_id"
    by (simp add: image_objects_def cats_of_def)
  from Cons.prems c obtain n1 where
    "obj_list_loop d (enumerate (Suc k) ids) (objs @ image_objects d k im_id, n1) = Inr (objs', n')"
    by (simp add: dict_get_def Let_def io del: upt.simps)
  from Cons.IH [OF this] c show ?case by simp
qed

lemma concat_map_if: "concat (map (\<lambda>x. if P x then [f x] else []) xs) = map f (filter P xs)"
  by (induction xs) simp_all

lemma image_objects_filter:
  "image_objects d ii im_id =
     map (Pair ii) (filter (\<lambda>jj. cats_of d im_id ! jj \<noteq> - 1) [0..<length (cats_of d im_id)])"
  by (simp add: image_objects_def concat_map_if)


lemma image_objects_mem:
  "(ii, jj) \<in> set (image_objects d k im_id) \<longleftrightarrow>
     ii = k \<and> jj < length (cats_of d im_id) \<and> cats_of d im_id ! jj \<noteq> - 1"
  by (auto simp: image_objects_filter)

lemma object_list_mem:
  "(ii, jj) \<in> set (object_list ids d) \<longleftrightarrow>
     ii < length ids \<and> jj < length (cats_of d (ids ! ii)) \<and> cats_of d (ids ! ii) ! jj \<noteq> - 1"
  unfolding object_list_def
  by (auto simp: in_set_enumerate_eq image_objects_mem)





lemma preprocess_loop_keys:
  "preprocess_loop fs thres ids d = Inr d' \<Longrightarrow> distinct (map fst d) \<Longrightarrow>
     distinct (map fst d') \<and> set (map fst d') = set (map fst d) \<union> set ids"
proof (induction ids arbitrary: d)
  case Nil
  then show ?case by simp
next
  case (Cons im_id ids)
  from Cons.prems(1) obtain cat_ids where
    "preprocess_loop fs thres ids (AList.update im_id cat_ids d) = Inr d'"
    by (auto split: option.splits sum.splits)
  moreover have "distinct (map fst (AList.update im_id cat_ids d))"
    using Cons.prems(2) by (rule distinct_update)
  ultimately have "distinct (map fst d') \<and>
      set (map fst d') = set (map fst (AList.update im_id cat_ids d)) \<union> set ids"
    by (rule Cons.IH)
  then show ?case by (auto simp: dom_update)
qed

lemma dict_of_pairs_distinct_aux:
  "distinct (map fst d) \<Longrightarrow> distinct (map fst (foldl (\<lambda>d (k, v). AList.update k v d) d ms))"
  by (induction ms arbitrary: d) (auto simp: distinct_update)

lemma dict_of_pairs_distinct: "distinct (map fst (dict_of_pairs ms))"
  by (simp add: dict_of_pairs_def dict_of_pairs_distinct_aux)

lemma json_load_distinct: "json_load txt = Inr d \<Longrightarrow> distinct (map fst d)"
  by (auto simp: json_load_def dict_of_pairs_distinct split: list.splits if_splits sum.splits)

lemma check_preprocess_Inr:
  assumes "check_preprocess fs s0 = Inr (valid, s1)"
  shows "\<exists>d. s1 = s0\<lparr>obj_dict := d\<rparr> \<and>
           (valid \<longrightarrow> distinct (map fst d) \<and> set (map fst d) = set (im_ids s0))"
proof (cases "text_file fs (obj_list_file s0)")
  case None
  with assms have "s1 = s0" "\<not> valid" by (simp_all add: check_preprocess_def)
  then have "s1 = s0\<lparr>obj_dict := obj_dict s0\<rparr> \<and>
     (valid \<longrightarrow> distinct (map fst (obj_dict s0)) \<and> set (map fst (obj_dict s0)) = set (im_ids s0))"
    by simp
  then show ?thesis ..
next
  case (Some cache)
  with assms obtain d where d: "json_load cache = Inr d" "s1 = s0\<lparr>obj_dict := d\<rparr>"
    "valid = (sort (map fst d) = sort (im_ids s0))"
    by (auto simp: check_preprocess_def split: sum.splits)
  have "set (map fst d) = set (im_ids s0)" if "sort (map fst d) = sort (im_ids s0)"
    using that by (metis set_sort)
  with d json_load_distinct [OF d(1)] show ?thesis by blast
qed

lemma preprocess_Inr:
  assumes "preprocess fs s1 = (Inr s2, fs')"
  shows "\<exists>d. s2 = s1\<lparr>obj_dict := d\<rparr> \<and> distinct (map fst d) \<and> set (map fst d) = set (im_ids s1)"
proof -
  from assms obtain d where d: "preprocess_loop fs (area_thres s1) (im_ids s1) [] = Inr d"
    "s2 = s1\<lparr>obj_dict := d\<rparr>"
    by (auto simp: preprocess_def split: sum.splits prod.splits option.splits)
  from preprocess_loop_keys [OF d(1)] d(2) show ?thesis by (intro exI [of _ d]) simp
qed

subsection \<open>The constructor\<close>

lemma init_objects_Inr:
  assumes "init_objects fs sa tr th pre dflt ret = (Inr self, fs')"
  shows "obj_list self = object_list (im_ids self) (obj_dict self)"
    and "\<forall>im_id \<in> set (im_ids self). map_of (obj_dict self) im_id \<noteq> None"
    and "distinct (map fst (obj_dict self))"
    and "set (map fst (obj_dict self)) = set (im_ids self)"
    and "default self = dflt" and "retname self = ret" and "transform self = tr"
    and "area_thres self = th"
proof -
  define splits where "splits = (case sa of SplitName s \<Rightarrow> [s] | SplitList ss \<Rightarrow> sort ss)"
  define s0 where "s0 ids = \<lparr>area_thres = th, default = dflt, retname = ret,
                        split = splits, obj_list_file = cache_name splits th,
                        transform = tr, im_ids = ids, obj_dict = [], obj_list = []\<rparr>" for ids
  from assms obtain ids valid s1 s2 objs num where
    k: "load_splits fs splits = Inr ids"
       "check_preprocess fs (s0 ids) = Inr (valid, s1)"
       "(if \<not> valid \<or> pre then preprocess fs s1 else (Inr s1, fs)) = (Inr s2, fs')"
       "obj_list_loop (obj_dict s2) (enumerate 0 (im_ids s2)) ([], 0) = Inr (objs, num)"
       "self = s2\<lparr>obj_list := objs\<rparr>"
    unfolding init_objects_def Let_def splits_def [symmetric] s0_def [symmetric]
    by (auto split: sum.splits prod.splits)
  from check_preprocess_Inr [OF k(2)] obtain d1 where
    d1: "s1 = (s0 ids)\<lparr>obj_dict := d1\<rparr>"
        "valid \<longrightarrow> distinct (map fst d1) \<and> set (map fst d1) = set (im_ids (s0 ids))"
    by blast
  have "\<exists>d2. s2 = (s0 ids)\<lparr>obj_dict := d2\<rparr> \<and> distinct (map fst d2) \<and> set (map fst d2) = set ids"
  proof (cases "\<not> valid \<or> pre")
    case True
    with k(3) have "preprocess fs s1 = (Inr s2, fs')" by simp
    from preprocess_Inr [OF this] d1(1) show ?thesis by (auto simp: s0_def)
  next
    case False
    with k(3) have "s2 = s1" "valid" by simp_all
    with d1 show ?thesis by (auto simp: s0_def)
  qed
  then obtain d2 where d2: "s2 = (s0 ids)\<lparr>obj_dict := d2\<rparr>" "distinct (map fst d2)"
    "set (map fst d2) = set ids" by blast
  from d2(1) k(5) have f: "obj_dict self = d2" "im_ids self = ids" "obj_list self = objs"
    "default self = dflt" "retname self = ret" "transform self = tr" "area_thres self = th"
    by (simp_all add: s0_def)
  from d2(1) have g: "obj_dict s2 = d2" "im_ids s2 = ids" by (simp_all add: s0_def)
  from obj_list_loop_Inr [OF k(4) [unfolded g]]
  show "obj_list self = object_list (im_ids self) (obj_dict self)"
    and "\<forall>im_id \<in> set (im_ids self). map_of (obj_dict self) im_id \<noteq> None"
    by (simp_all add: f object_list_def)
  show "distinct (map fst (obj_dict self))" "set (map fst (obj_dict self)) = set (im_ids self)"
    using d2 f by simp_all
  show "default self = dflt" "retname self = ret" "transform self = tr" "area_thres self = th"
    using f by simp_all
qed

lemma init_Inr:
  assumes "init fs sa tr th pre dflt ret = (Inr self, fs')"
  shows "init_objects fs sa tr th pre dflt ret = (Inr self, fs')"
    and "\<exists>res. make_img_gt_point_pair fs' self 1 = Inr res"
  using assms unfolding init_def
  by (auto split: sum.splits prod.splits)


lemma ex_init_objects:
  "init_objects ex_fs (SplitName ''train'') None 0 False dflt True = (Inr (ex_self dflt), ex_fs_cached)"
proof -
  have l: "load_splits ex_fs [''train''] = Inr [''a'', ''b'']"
    by (simp add: ex_fs_def)
  have n: "cache_name [''train''] 0 = ''train_instances.txt''"
    by (simp add: cache_name_def)
  have p: "preprocess_loop ex_fs 0 [''a'', ''b''] [] = Inr [(''a'', [5]), (''b'', [7, 7, 9])]"
    by code_simp
  have w: "write_cache [''a'', ''b''] [(''a'', [5]), (''b'', [7, 7, 9])] = (None, ex_cache)"
    by code_simp
  have o: "obj_list_loop [(''a'', [5]), (''b'', [7, 7, 9])] (enumerate 0 [''a'', ''b'']) ([], 0) =
             Inr ([(0, 0), (1, 0), (1, 1), (1, 2)], 2)"
    by code_simp
  have t: "text_file ex_fs ''train_instances.txt'' = None" by (simp add: ex_fs_def)
  show ?thesis
    unfolding init_objects_def ex_self_def ex_fs_cached_def
    by (simp only: Let_def split_arg.case l n t p w o check_preprocess_def preprocess_def
          sum.case option.case prod.case dataset.select_convs dataset.update_convs
          simp_thms if_True if_False)
qed

lemma ex_init:
  "init ex_fs (SplitName ''train'') None 0 False dflt True = (Inr (ex_self dflt), ex_fs_cached)"
proof -
  have "\<exists>res. make_img_gt_point_pair ex_fs_cached (ex_self dflt) 1 = Inr res"
  proof (cases dflt)
    case True
    have "make_img_gt_point_pair ex_fs_cached (ex_self True) 1 =
      Inr ([[(0, 0, 0), (1, 1, 1), (2, 2, 2), (3, 3, 3), (4, 4, 4)]],
          [[0, 1, 2, 3, 0]], [[0, 0, 0, 0, 1]], [[0, 0, 0, 0, 0]], [[0, 0, 0, 0, 0]],
          [[1, 0, 0, 0, 0]])" by code_simp
    with True show ?thesis by simp
  next
    case False
    have "make_img_gt_point_pair ex_fs_cached (ex_self False) 1 =
     Inr ([[(0, 0, 0), (1, 1, 1), (2, 2, 2), (3, 3, 3), (4, 4, 4)]],
          [[0, 1, 0, 0, 0]], [[0, 0, 0, 0, 1]], [[0, 0, 0, 1, 0]], [[0, 0, 1, 0, 0]],
          [[1, 0, 0, 0, 0]])" by code_simp
    with False show ?thesis by simp
  qed
  then obtain res where "make_img_gt_point_pair ex_fs_cached (ex_self dflt) 1 = Inr res" ..
  then show ?thesis by (simp add: init_def ex_init_objects)
qed






lemma ex_init_objects_one:
  "init_objects ex_fs_one (SplitName ''train'') None 0 False False True =
     (Inr ex_self_one, ex_fs_one\<lparr>text_file := (text_file ex_fs_one)(''train_instances.txt'' \<mapsto> ex_cache_one)\<rparr>)"
proof -
  have l: "load_splits ex_fs_one [''train''] = Inr [''a'']"
    by (simp add: ex_fs_one_def ex_fs_def)
  have n: "cache_name [''train''] 0 = ''train_instances.txt''"
    by (simp add: cache_name_def)
  have p: "preprocess_loop ex_fs_one 0 [''a''] [] = Inr [(''a'', [5])]"
    by code_simp
  have w: "write_cache [''a''] [(''a'', [5])] = (None, ex_cache_one)"
    by code_simp
  have o: "obj_list_loop [(''a'', [5])] (enumerate 0 [''a'']) ([], 0) = Inr ([(0, 0)], 1)"
    by code_simp
  have t: "text_file ex_fs_one ''train_instances.txt'' = None" by (simp add: ex_fs_one_def ex_fs_def)
  show ?thesis
    unfolding init_objects_def ex_self_one_def
    by (simp only: Let_def split_arg.case l n t p w o check_preprocess_def preprocess_def
          sum.case option.case prod.case dataset.select_convs dataset.update_convs
          simp_thms if_True if_False)
qed

text \<open>
  Claim C9. A construction that succeeds has at least two entries in its object list;
  and when the constructor reaches its last statement with fewer than two entries, the
  construction fails with \<open>IndexError\<close>, raised by position 1 of the object list.
\<close>

theorem init_needs_two_objects:
  "(init fs sa tr th pre dflt ret = (Inr self, fs') \<longrightarrow> 2 \<le> len self) \<and>
   (init_objects fs sa tr th pre dflt ret = (Inr self, fs') \<and> len self < 2 \<longrightarrow>
      init fs sa tr th pre dflt ret = (Inl IndexError, fs'))"
proof (intro conjI impI)
  assume ok: "init fs sa tr th pre dflt ret = (Inr self, fs')"
  from init_Inr(2) [OF ok] obtain res where "make_img_gt_point_pair fs' self 1 = Inr res" ..
  then obtain im_ii obj_ii where "py_index (obj_list self) 1 = Inr (im_ii, obj_ii)"
    by (rule make_pair_lookup)
  then show "2 \<le> len self" by (simp add: len_def split: if_splits)
next
  assume a: "init_objects fs sa tr th pre dflt ret = (Inr self, fs') \<and> len self < 2"
  then have "py_index (obj_list self) 1 = Inl IndexError" by (simp add: len_def)
  then have "make_img_gt_point_pair fs' self 1 = Inl IndexError"
    by (simp only: make_img_gt_point_pair_def sum.case)
  with a show "init fs sa tr th pre dflt ret = (Inl IndexError, fs')"
    by (simp add: init_def)
qed

theorem init_needs_two_objects_witness:
  "init ex_fs (SplitName ''train'') None 0 False False True = (Inr (ex_self False), ex_fs_cached) \<and>
   2 \<le> len (ex_self False) \<and>
   init_objects ex_fs_one (SplitName ''train'') None 0 False False True =
     (Inr ex_self_one, ex_fs_one\<lparr>text_file := (text_file ex_fs_one)(''train_instances.txt'' \<mapsto> ex_cache_one)\<rparr>) \<and>
   len ex_self_one < 2 \<and>
   init ex_fs_one (SplitName ''train'') None 0 False False True =
     (Inl IndexError, ex_fs_one\<lparr>text_file := (text_file ex_fs_one)(''train_instances.txt'' \<mapsto> ex_cache_one)\<rparr>)"
proof -
  note a = ex_init [of False]
  note b = ex_init_objects_one
  have c: "len ex_self_one < 2" by (simp add: len_def ex_self_one_def)
  from init_needs_two_objects [THEN conjunct1, THEN mp, OF a]
  have d: "2 \<le> len (ex_self False)" .
  from init_needs_two_objects [THEN conjunct2, THEN mp, OF conjI [OF b c]]
  have e: "init ex_fs_one (SplitName ''train'') None 0 False False True =
     (Inl IndexError, ex_fs_one\<lparr>text_file := (text_file ex_fs_one)(''train_instances.txt'' \<mapsto> ex_cache_one)\<rparr>)" .
  from a d b c e show ?thesis by (intro conjI)
qed

subsection \<open>Instances excluded by the area filter\<close>

lemma py_index_nat: "py_index xs (int i) = Inr x \<Longrightarrow> i < length xs \<and> x = xs ! i"
  by (auto split: if_splits)

lemma py_index_mem: "py_index xs i = Inr x \<Longrightarrow> x \<in> set xs"
  by (auto split: if_splits)

lemma ex_init_thr:
  "init ex_fs_thr (SplitName ''val'') None 1 False False False = (Inr ex_self_thr, ex_fs_thr_cached)"
proof -
  have l: "load_splits ex_fs_thr [''val''] = Inr [''c'', ''d'']"
    by (simp add: ex_fs_thr_def)
  have n: "cache_name [''val''] 1 = ''val_instances_area_thres-1.txt''"
    by code_simp
  have p: "preprocess_loop ex_fs_thr 1 [''c'', ''d''] [] = Inr [(''c'', [5, - 1]), (''d'', [6])]"
    by code_simp
  have w: "write_cache [''c'', ''d''] [(''c'', [5, - 1]), (''d'', [6])] = (None, ex_cache_thr)"
    by code_simp
  have o: "obj_list_loop [(''c'', [5, - 1]), (''d'', [6])] (enumerate 0 [''c'', ''d'']) ([], 0) =
             Inr ([(0, 0), (1, 0)], 2)"
    by code_simp
  have t: "text_file ex_fs_thr ''val_instances_area_thres-1.txt'' = None" by (simp add: ex_fs_thr_def)
  have io: "init_objects ex_fs_thr (SplitName ''val'') None 1 False False False = (Inr ex_self_thr, ex_fs_thr_cached)"
    unfolding init_objects_def ex_self_thr_def ex_fs_thr_cached_def
    by (simp only: Let_def split_arg.case l n t p w o check_preprocess_def preprocess_def
          sum.case option.case prod.case dataset.select_convs dataset.update_convs
          simp_thms if_True if_False)
  have "make_img_gt_point_pair ex_fs_thr_cached ex_self_thr 1 =
      Inr ([[(0, 0, 0), (1, 1, 1), (2, 2, 2), (3, 3, 3)]],
          [[1, 1, 0, 0]], [[0, 0, 0, 0]], [[0, 0, 0, 0]], [[0, 0, 0, 0]], [[0, 0, 1, 1]])"
    by code_simp
  then show ?thesis by (simp add: init_def io)
qed

text \<open>
  Claim C10. For a dataset the constructor has built, in per-object mode: when the
  catalog entry of another instance \<open>k\<close> of the image is the sentinel \<open>-1\<close>, every pixel
  of value \<open>k\<close> is 1 in the other-class distractor mask and 0 in the same-class
  distractor mask, because the category of the target instance is never the sentinel.
\<close>

theorem sentinel_instance_is_other_class:
  assumes built: "init fs0 sa tr th pre dflt ret = (Inr self, fs')"
    and nd: "\<not> default self"
    and res: "make_img_gt_point_pair fs self index =
            Inr (img, target, void_pixels, other_classes, other_same_class, background)"
    and l1: "py_index (obj_list self) index = Inr (im_ii, obj_ii)"
    and l2: "py_index (im_ids self) (int im_ii) = Inr im_id"
    and l3: "seg_object fs im_id = Some m"
    and d: "dict_get (obj_dict self) im_id = Inr cats"
    and k: "1 \<le> k" "k \<noteq> obj_ii + 1" "cats ! (k - 1) = - 1"
    and r: "r < length m" and c: "c < length (m ! r)"
    and px: "m ! r ! c \<noteq> 255" "unat (m ! r ! c) = k"
  shows "cats ! obj_ii \<noteq> - 1 \<and> other_classes ! r ! c = 1 \<and> other_same_class ! r ! c = 0"
proof -
  from nd res l1 l2 l3 obtain cats' obj_cat where
    d': "dict_get (obj_dict self) im_id = Inr cats'" "py_index cats' (int obj_ii) = Inr obj_cat" and
    m: "target = pmask m (\<lambda>x. void_zeroed x = obj_ii + 1)"
       "void_pixels = pmask m (\<lambda>x. x = 255)"
       "other_classes = pmask m (\<lambda>x. 1 \<le> void_zeroed x \<and> void_zeroed x \<noteq> obj_ii + 1 \<and>
                               cats' ! (void_zeroed x - 1) \<noteq> obj_cat)"
       "other_same_class = pmask m (\<lambda>x. 1 \<le> void_zeroed x \<and> void_zeroed x \<noteq> obj_ii + 1 \<and>
                               cats' ! (void_zeroed x - 1) = obj_cat)"
       "background = pmask m (\<lambda>x. void_zeroed x = 0 \<and> x \<noteq> 255)" and
    b: "\<forall>x \<in> set (concat m). void_zeroed x \<le> length cats'"
    by (rule per_object_masks)
  from d d'(1) have cs: "cats' = cats" by simp
  from py_index_nat [OF d'(2)] cs have oc: "obj_ii < length cats" "obj_cat = cats ! obj_ii" by simp_all
  note inv = init_objects_Inr [OF init_Inr(1) [OF built]]
  from py_index_mem [OF l1] inv(1) have "(im_ii, obj_ii) \<in> set (object_list (im_ids self) (obj_dict self))"
    by simp
  then have mem: "im_ii < length (im_ids self)"
    "cats_of (obj_dict self) (im_ids self ! im_ii) ! obj_ii \<noteq> - 1"
    by (simp_all add: object_list_mem)
  from py_index_nat [OF l2] have "im_id = im_ids self ! im_ii" by simp
  moreover from d have "cats_of (obj_dict self) im_id = cats"
    by (simp add: dict_get_def cats_of_def split: option.splits)
  ultimately have valid: "cats ! obj_ii \<noteq> - 1" using mem(2) by simp
  from px have vz: "void_zeroed (m ! r ! c) = k" by (simp add: void_zeroed_def)
  from valid oc k vz show ?thesis
    by (simp add: m cs pmask_nth [OF r c])
qed

theorem sentinel_instance_is_other_class_witness:
  "init ex_fs_thr (SplitName ''val'') None 1 False False False = (Inr ex_self_thr, ex_fs_thr_cached) \<and>
   \<not> default ex_self_thr \<and>
   make_img_gt_point_pair ex_fs_thr_cached ex_self_thr 0 =
     Inr ([[(1, 1, 1), (2, 2, 2), (3, 3, 3), (4, 4, 4)]],
          [[1, 1, 0, 0]], [[0, 0, 0, 0]], [[0, 0, 1, 0]], [[0, 0, 0, 0]], [[0, 0, 0, 1]]) \<and>
   dict_get (obj_dict ex_self_thr) ''c'' = Inr [5, - 1] \<and>
   [5, - 1 :: int] ! (2 - 1) = - 1 \<and>
   unat ([[1, 1, 2, 0 :: uint8]] ! 0 ! 2) = 2 \<and>
   [[0, 0, 1, 0 :: nat]] ! 0 ! 2 = 1 \<and> [[0, 0, 0, 0 :: nat]] ! 0 ! 2 = 0"
proof -
  have res: "make_img_gt_point_pair ex_fs_thr_cached ex_self_thr 0 =
     Inr ([[(1, 1, 1), (2, 2, 2), (3, 3, 3), (4, 4, 4)]],
          [[1, 1, 0, 0]], [[0, 0, 0, 0]], [[0, 0, 1, 0]], [[0, 0, 0, 0]], [[0, 0, 0, 1]])"
    by code_simp
  have nd: "\<not> default ex_self_thr" by (simp add: ex_self_thr_def)
  have l1: "py_index (obj_list ex_self_thr) 0 = Inr (0, 0)" by (simp add: ex_self_thr_def)
  have l2: "py_index (im_ids ex_self_thr) (int 0) = Inr ''c''" by (simp add: ex_self_thr_def)
  have l3: "seg_object ex_fs_thr_cached ''c'' = Some [[1, 1, 2, 0]]"
    by (simp add: ex_fs_thr_cached_def ex_fs_thr_def)
  have d: "dict_get (obj_dict ex_self_thr) ''c'' = Inr [5, - 1]"
    by (simp add: ex_self_thr_def dict_get_def)
  have k: "(1 :: nat) \<le> 2" "(2 :: nat) \<noteq> 0 + 1" "[5, - 1 :: int] ! (2 - 1) = - 1" by simp_all
  have r: "0 < length [[1, 1, 2, 0 :: uint8]]" and c: "2 < length ([[1, 1, 2, 0 :: uint8]] ! 0)"
    by simp_all
  have px: "[[1, 1, 2, 0 :: uint8]] ! 0 ! 2 \<noteq> 255" "unat ([[1, 1, 2, 0 :: uint8]] ! 0 ! 2) = 2"
    by simp_all
  from sentinel_instance_is_other_class [OF ex_init_thr nd res l1 l2 l3 d k r c px]
  have "[[0, 0, 1, 0 :: nat]] ! 0 ! 2 = 1 \<and> [[0, 0, 0, 0 :: nat]] ! 0 ! 2 = 0"
    by (rule conjunct2)
  with ex_init_thr nd res d k(3) px(2) show ?thesis by (intro conjI) simp_all
qed

section \<open>Retrieval\<close>

subsection \<open>A freshly built catalog matches the rasters\<close>













subsection \<open>The sample returned by \<open>getitem\<close>\<close>





end
